theory Spec2Isabelle
  imports Complex_Main "HOL-Library.Multiset"
begin

section \<open>Python values used by txtxl.py\<close>

text \<open>
  Text is a \<open>string\<close>; a character stands for one code point below 256. Files are opened
  in text mode, so a line break inside the program is the single character
  \<open>\<newline>\<close>.

  The exceptions are the Python built-ins that the statements of \<open>txtxl.py\<close> can raise
  (\<open>OSError\<close>, with its message, for a directory or a file that cannot be made or opened),
  \<open>OtherError\<close> for whatever the pandas and xlsxwriter calls raise, and the two error
  kinds that only the specification names (\<open>MalformedRecordError\<close> with a line number,
  \<open>ConfigurationError\<close>): no statement of the source raises either of them.
\<close>

datatype exn =
    IndexError
  | ValueError
  | KeyError
  | ZeroDivisionError
  | OSError string
  | OtherError string
  | MalformedRecordError nat
  | ConfigurationError

fun is_MalformedRecordError :: "exn \<Rightarrow> bool" where
  "is_MalformedRecordError (MalformedRecordError n) = True"
| "is_MalformedRecordError e = False"

fun is_ConfigurationError :: "exn \<Rightarrow> bool" where
  "is_ConfigurationError ConfigurationError = True"
| "is_ConfigurationError e = False"

subsection \<open>str.strip, str.split, file.readlines\<close>

text \<open>\<open>str.isspace\<close> on the code points below 256: 9 to 13, 28 to 32, 133 and 160.\<close>

definition isspace :: "char \<Rightarrow> bool" where
  "isspace c =
     (let n = (of_char c :: nat)
      in (9 \<le> n \<and> n \<le> 13) \<or> (28 \<le> n \<and> n \<le> 32) \<or> n = 133 \<or> n = 160)"

text \<open>\<open>s.strip()\<close>: leading and trailing whitespace removed.\<close>

definition strip :: "string \<Rightarrow> string" where
  "strip s = rev (dropWhile isspace (rev (dropWhile isspace s)))"

text \<open>
  \<open>s.split(sep)\<close> for a string \<open>sep\<close>: an empty separator raises ValueError; otherwise
  the text is cut at the non-overlapping occurrences of \<open>sep\<close>, found from left to
  right. \<open>split_from sep cur s\<close> scans \<open>s\<close> with the field \<open>cur\<close> in progress.
\<close>

function split_from :: "string \<Rightarrow> string \<Rightarrow> string \<Rightarrow> string list" where
  "split_from sep cur s =
     (if s = [] then [cur]
      else if sep \<noteq> [] \<and> take (length sep) s = sep
        then cur # split_from sep [] (drop (length sep) s)
      else split_from sep (cur @ [hd s]) (tl s))"
  by pat_completeness auto
termination
  by (relation "measure (\<lambda>(sep, cur, s). length s)") auto

declare split_from.simps [simp del]

definition split :: "string \<Rightarrow> string \<Rightarrow> exn + string list" where
  "split s sep = (if sep = [] then Inl ValueError else Inr (split_from sep [] s))"

text \<open>
  \<open>file.readlines()\<close>: the text cut after every line break; each line keeps its line
  break, and a last line without one is kept as it is.
\<close>

fun readlines_from :: "string \<Rightarrow> string \<Rightarrow> string list" where
  "readlines_from cur [] = (if cur = [] then [] else [cur])"
| "readlines_from cur (c # cs) =
     (if c = CHR ''\<newline>'' then (cur @ [c]) # readlines_from [] cs
      else readlines_from (cur @ [c]) cs)"

definition readlines :: "string \<Rightarrow> string list" where
  "readlines content = readlines_from [] content"

subsection \<open>Lists and dictionaries\<close>

text \<open>\<open>xs[i]\<close> for an index \<open>i \<ge> 0\<close>: IndexError out of range.\<close>

definition getitem :: "'a list \<Rightarrow> nat \<Rightarrow> exn + 'a" where
  "getitem xs i = (if i < length xs then Inr (xs ! i) else Inl IndexError)"

text \<open>
  A \<open>dict\<close> keeps its keys in the order of their first insertion, so it is an
  association list with distinct keys: \<open>k in d\<close>, \<open>d[k] = v\<close> (an existing key keeps its
  place, a new key goes to the end) and \<open>d[k]\<close> (KeyError when absent).
\<close>

type_synonym ('k, 'v) dict = "('k \<times> 'v) list"

definition dict_contains :: "'k \<Rightarrow> ('k, 'v) dict \<Rightarrow> bool" where
  "dict_contains k d = (k \<in> set (map fst d))"

fun dict_setitem :: "'k \<Rightarrow> 'v \<Rightarrow> ('k, 'v) dict \<Rightarrow> ('k, 'v) dict" where
  "dict_setitem k v [] = [(k, v)]"
| "dict_setitem k v (p # ps) =
     (if fst p = k then (k, v) # ps else p # dict_setitem k v ps)"

definition dict_getitem :: "'k \<Rightarrow> ('k, 'v) dict \<Rightarrow> exn + 'v" where
  "dict_getitem k d = (case map_of d k of None \<Rightarrow> Inl KeyError | Some v \<Rightarrow> Inr v)"

subsection \<open>os.path.join\<close>

text \<open>
  \<open>os.path.join(a, b)\<close> of posixpath: an absolute \<open>b\<close> replaces \<open>a\<close>; otherwise \<open>b\<close> is
  appended, after a slash unless \<open>a\<close> is empty or already ends with one.
\<close>

definition os_path_join :: "string \<Rightarrow> string \<Rightarrow> string" where
  "os_path_join a b =
     (if take 1 b = ''/'' then b
      else if a = [] \<or> last a = CHR ''/'' then a @ b
      else a @ ''/'' @ b)"

section \<open>split_file_by_instruction_code\<close>

text \<open>
  Lines 38 to 44: the loop over the data lines. Each line is stripped and split; its
  field at index 1 is the instruction code; a new code gets an empty list, and the raw
  line is appended to the list of its code.
\<close>

fun group_lines ::
  "string \<Rightarrow> string list \<Rightarrow> (string, string list) dict \<Rightarrow> exn + (string, string list) dict"
where
  "group_lines delimiter [] grouped_data = Inr grouped_data"
| "group_lines delimiter (line # rest) grouped_data =
     (case split (strip line) delimiter of
        Inl e \<Rightarrow> Inl e
      | Inr columns \<Rightarrow>
          (case getitem columns 1 of
             Inl e \<Rightarrow> Inl e
           | Inr instruction_code \<Rightarrow>
               (let d1 = (if \<not> dict_contains instruction_code grouped_data
                          then dict_setitem instruction_code [] grouped_data
                          else grouped_data)
                in case dict_getitem instruction_code d1 of
                     Inl e \<Rightarrow> Inl e
                   | Inr records \<Rightarrow>
                       group_lines delimiter rest
                         (dict_setitem instruction_code (records @ [line]) d1))))"

text \<open>
  The effects of one call: the directories made by \<open>os.makedirs\<close>, the files written (path
  and text, in the order of the writes), and the value returned or the exception raised.
  The timing messages are left out. Here every directory can be made and every file can
  be opened; the operating system comes in with \<open>split_file_by_instruction_code_io\<close>
  below, which carries out these writes on files.
\<close>

record split_run =
  made_dirs :: "string list"
  written :: "(string \<times> string) list"
  outcome :: "exn + string"

text \<open>Lines 49 to 51: the text written for one group.\<close>

definition group_file :: "string \<Rightarrow> string list \<Rightarrow> string" where
  "group_file header records = (header @ ''\<newline>'') @ concat records"

text \<open>
  Everything after \<open>file.readlines()\<close>: \<open>input_dir\<close> is the directory of the input file,
  \<open>lines\<close> what \<open>readlines\<close> returned.
\<close>

definition split_lines :: "string \<Rightarrow> string list \<Rightarrow> string \<Rightarrow> split_run" where
  "split_lines input_dir lines delimiter =
     (let output_folder = os_path_join input_dir ''intermediate''
      in case getitem lines 0 of
           Inl e \<Rightarrow> \<lparr>made_dirs = [output_folder], written = [], outcome = Inl e\<rparr>
         | Inr line0 \<Rightarrow>
             (let header = strip line0;
                  data_lines = drop 1 lines
              in case group_lines delimiter data_lines [] of
                   Inl e \<Rightarrow> \<lparr>made_dirs = [output_folder], written = [], outcome = Inl e\<rparr>
                 | Inr grouped_data \<Rightarrow>
                     \<lparr>made_dirs = [output_folder],
                      written =
                        map (\<lambda>(instruction_code, records).
                               (os_path_join output_folder (instruction_code @ ''.txt''),
                                group_file header records))
                          grouped_data,
                      outcome = Inr output_folder\<rparr>))"

text \<open>The function itself, on the text of the input file.\<close>

definition split_file_by_instruction_code :: "string \<Rightarrow> string \<Rightarrow> string \<Rightarrow> split_run" where
  "split_file_by_instruction_code input_dir content delimiter =
     split_lines input_dir (readlines content) delimiter"

text \<open>
  Vocabulary for the properties of the grouping stage: a line \<open>has two fields\<close> when
  the statements of lines 40 and 41 go through on it (the stripped line splits into at
  least two fields), \<open>field1\<close> is then its field at index 1, \<open>first_seen\<close> lists
  the distinct elements of a list in the order of their first occurrence, and
  \<open>records_of\<close> reads the records of a key, empty for a key that is absent.
\<close>

definition two_fields :: "string \<Rightarrow> string \<Rightarrow> bool" where
  "two_fields delimiter line =
     (case split (strip line) delimiter of
        Inl e \<Rightarrow> False
      | Inr columns \<Rightarrow> 2 \<le> length columns)"

definition field1 :: "string \<Rightarrow> string \<Rightarrow> string" where
  "field1 delimiter line = split_from delimiter [] (strip line) ! 1"

fun first_seen :: "'a list \<Rightarrow> 'a list" where
  "first_seen [] = []"
| "first_seen (x # xs) = x # filter (\<lambda>y. y \<noteq> x) (first_seen xs)"

definition records_of :: "(string, string list) dict \<Rightarrow> string \<Rightarrow> string list" where
  "records_of d k = (case map_of d k of None \<Rightarrow> [] | Some rs \<Rightarrow> rs)"

text \<open>
  A list of lines as \<open>readlines\<close> returns them: no line is empty, a line break can
  only be the last character of a line, and every line but the last ends with one.
\<close>

fun lines_of_text :: "string list \<Rightarrow> bool" where
  "lines_of_text [] = True"
| "lines_of_text [l] = (l \<noteq> [] \<and> CHR ''\<newline>'' \<notin> set (butlast l))"
| "lines_of_text (l # l' # ls) =
     (l \<noteq> [] \<and> CHR ''\<newline>'' \<notin> set (butlast l) \<and> last l = CHR ''\<newline>'' \<and>
      lines_of_text (l' # ls))"

fun failed_with :: "(exn \<Rightarrow> bool) \<Rightarrow> exn + 'a \<Rightarrow> bool" where
  "failed_with P (Inl e) = P e"
| "failed_with P (Inr v) = False"

section \<open>convert_text_to_excel\<close>

subsection \<open>Library calls\<close>

text \<open>\<open>os.path.basename\<close> of posixpath: what follows the last slash.\<close>

definition basename :: "string \<Rightarrow> string" where
  "basename p = rev (takeWhile (\<lambda>c. c \<noteq> CHR ''/'') (rev p))"

text \<open>
  \<open>os.path.splitext(name)[0]\<close> for a name without a slash: the name up to its last dot,
  when some character before that dot is not a dot; otherwise the whole name.
\<close>

definition splitext_root :: "string \<Rightarrow> string" where
  "splitext_root name =
     (if CHR ''.'' \<in> set name
      then (let root = rev (drop 1 (dropWhile (\<lambda>c. c \<noteq> CHR ''.'') (rev name)))
            in if \<exists>c \<in> set root. c \<noteq> CHR ''.'' then root else name)
      else name)"

text \<open>The decimal text of an integer, as an f-string prints it.\<close>

function str_nat :: "nat \<Rightarrow> string" where
  "str_nat n =
     (if n < 10 then [char_of (48 + n)]
      else str_nat (n div 10) @ [char_of (48 + n mod 10)])"
  by pat_completeness auto
termination
  by (relation "measure (\<lambda>n. n)") auto

declare str_nat.simps [simp del]

definition str_int :: "int \<Rightarrow> string" where
  "str_int i = (if i < 0 then CHR ''-'' # str_nat (nat (- i)) else str_nat (nat i))"

text \<open>
  \<open>df.iloc[start:stop]\<close>: a Python slice of the rows. A negative bound counts from the
  end, every bound is clipped to the length, and the slice is empty when the stop is
  not after the start.
\<close>

definition slice_bound :: "int \<Rightarrow> nat \<Rightarrow> nat" where
  "slice_bound i n = (if i < 0 then nat (max (i + int n) 0) else min (nat i) n)"

definition iloc :: "'a list \<Rightarrow> int \<Rightarrow> int \<Rightarrow> 'a list" where
  "iloc df start stop =
     (let a = slice_bound start (length df); b = slice_bound stop (length df)
      in take (b - a) (drop a df))"

subsection \<open>The conversion loop\<close>

text \<open>
  pandas and xlsxwriter are not part of the program; they are parameters. A data frame is
  the list of its rows. \<open>read_csv text_file delimiter\<close> is what
  \<open>pd.read_csv(text_file, sep=delimiter, dtype=str)\<close> does on the file: the message of
  the exception it raises, or the data frame. \<open>to_excel output_path df\<close> is what
  writing \<open>df\<close> to a workbook at \<open>output_path\<close> does: the message of the exception it
  raises, or nothing.

  The effects of a run: the files handed to \<open>pd.read_csv\<close>, the workbooks written (path
  and rows), the messages printed, and the list \<open>excel_files\<close> that is returned. The
  timing message is left out.
\<close>

datatype message = Created string | Error_processing string exn

record 'row convert_run =
  parsed :: "string list"
  workbooks :: "(string \<times> 'row list) list"
  printed :: "message list"
  excel_files :: "string list"

definition no_effects :: "'row convert_run" where
  "no_effects = \<lparr>parsed = [], workbooks = [], printed = [], excel_files = []\<rparr>"

text \<open>
  A workbook saved: the rows are written at \<open>output_path\<close>, the path is appended to
  \<open>excel_files\<close>, and \<open>Created: shown\<close> is printed (lines 117 to 121 and 127 to 131).
\<close>

definition created :: "string \<Rightarrow> 'row list \<Rightarrow> string \<Rightarrow> 'row convert_run \<Rightarrow> 'row convert_run" where
  "created output_path df shown st =
     st\<lparr>workbooks := workbooks st @ [(output_path, df)],
        excel_files := excel_files st @ [output_path],
        printed := printed st @ [Created shown]\<rparr>"

text \<open>Lines 108 to 110: the rows of split \<open>i\<close>. Line 113: its file name.\<close>

definition split_rows :: "'row list \<Rightarrow> int \<Rightarrow> int \<Rightarrow> 'row list" where
  "split_rows df max_rows i =
     (let start_idx = i * max_rows;
          end_idx = min ((i + 1) * max_rows) (int (length df))
      in iloc df start_idx end_idx)"

definition split_filename :: "string \<Rightarrow> int \<Rightarrow> string" where
  "split_filename base_filename i = base_filename @ ''_part'' @ str_int (i + 1) @ ''.xlsx''"

text \<open>
  Lines 106 to 121: the loop over \<open>range(num_splits)\<close>, here over the list of the values
  of \<open>i\<close> still to come. An exception of the writer leaves the loop at once, with what
  was written before.
\<close>

fun write_splits ::
  "(string \<Rightarrow> 'row list \<Rightarrow> string option) \<Rightarrow> string \<Rightarrow> string \<Rightarrow> int \<Rightarrow> 'row list \<Rightarrow>
   int list \<Rightarrow> 'row convert_run \<Rightarrow> exn option \<times> 'row convert_run"
where
  "write_splits to_excel output_folder base_filename max_rows df [] st = (None, st)"
| "write_splits to_excel output_folder base_filename max_rows df (i # rest) st =
     (let split_df = split_rows df max_rows i;
          output_path = os_path_join output_folder (split_filename base_filename i)
      in case to_excel output_path split_df of
           Some msg \<Rightarrow> (Some (OtherError msg), st)
         | None \<Rightarrow>
             write_splits to_excel output_folder base_filename max_rows df rest
               (created output_path split_df (split_filename base_filename i) st))"

text \<open>Lines 95 to 131: the body of the \<open>try\<close>, with the exception that leaves it, if any.\<close>

definition convert_body ::
  "(string \<Rightarrow> string \<Rightarrow> string + 'row list) \<Rightarrow> (string \<Rightarrow> 'row list \<Rightarrow> string option) \<Rightarrow>
   string \<Rightarrow> string \<Rightarrow> int \<Rightarrow> string \<Rightarrow> 'row convert_run \<Rightarrow> exn option \<times> 'row convert_run"
where
  "convert_body read_csv to_excel output_folder delimiter max_rows text_file st =
     (let st1 = st\<lparr>parsed := parsed st @ [text_file]\<rparr>
      in case read_csv text_file delimiter of
           Inl msg \<Rightarrow> (Some (OtherError msg), st1)
         | Inr df \<Rightarrow>
             (let base_filename = splitext_root (basename text_file)
              in if int (length df) > max_rows
                 then (if max_rows = 0 then (Some ZeroDivisionError, st1)
                       else (let num_splits = (int (length df) + max_rows - 1) div max_rows
                             in write_splits to_excel output_folder base_filename max_rows df
                                  (map int [0..<nat num_splits]) st1))
                 else (let output_path = os_path_join output_folder (base_filename @ ''.xlsx'')
                       in case to_excel output_path df of
                            Some msg \<Rightarrow> (Some (OtherError msg), st1)
                          | None \<Rightarrow> (None, created output_path df (basename output_path) st1))))"

text \<open>Lines 93 to 134: one pass of the loop over the text files, \<open>try\<close> and \<open>except\<close>.\<close>

definition convert_file ::
  "(string \<Rightarrow> string \<Rightarrow> string + 'row list) \<Rightarrow> (string \<Rightarrow> 'row list \<Rightarrow> string option) \<Rightarrow>
   string \<Rightarrow> string \<Rightarrow> int \<Rightarrow> string \<Rightarrow> 'row convert_run \<Rightarrow> 'row convert_run"
where
  "convert_file read_csv to_excel output_folder delimiter max_rows text_file st =
     (case convert_body read_csv to_excel output_folder delimiter max_rows text_file st of
        (None, st') \<Rightarrow> st'
      | (Some e, st') \<Rightarrow> st'\<lparr>printed := printed st' @ [Error_processing text_file e]\<rparr>)"

text \<open>
  The function from line 86 on, once line 84 has made the output folder: \<open>text_files\<close>
  is what \<open>glob.glob\<close> found in the input folder, and the output folder defaults to the
  input folder. Line 84 itself comes in with \<open>convert_text_to_excel_io\<close> below.
\<close>

definition convert_text_to_excel ::
  "(string \<Rightarrow> string \<Rightarrow> string + 'row list) \<Rightarrow> (string \<Rightarrow> 'row list \<Rightarrow> string option) \<Rightarrow>
   string list \<Rightarrow> string \<Rightarrow> string option \<Rightarrow> string \<Rightarrow> int \<Rightarrow> 'row convert_run"
where
  "convert_text_to_excel read_csv to_excel text_files input_folder output_folder delimiter max_rows =
     (let out = (case output_folder of None \<Rightarrow> input_folder | Some folder \<Rightarrow> folder)
      in fold (convert_file read_csv to_excel out delimiter max_rows) text_files no_effects)"

text \<open>The effects of one run followed by those of another.\<close>

definition append_run :: "'row convert_run \<Rightarrow> 'row convert_run \<Rightarrow> 'row convert_run" where
  "append_run a b =
     \<lparr>parsed = parsed a @ parsed b, workbooks = workbooks a @ workbooks b,
      printed = printed a @ printed b, excel_files = excel_files a @ excel_files b\<rparr>"

section \<open>The two functions in their environment\<close>

text \<open>
  The definitions above start from the text as Python delivers it and list the writes
  that are asked for. The ones below add what stands around them: the translation of
  line ends when the input file is read, the directories and files of the operating
  system, which can refuse a request and can give one file to two paths, and the value
  returned or the exception raised by the call.
\<close>

subsection \<open>Reading in text mode\<close>

text \<open>
  \<open>open(input_file, "r")\<close> reads with universal newlines: a carriage return followed by
  a line feed, and a carriage return alone, both become one line feed.
\<close>

fun universal_newlines :: "string \<Rightarrow> string" where
  "universal_newlines [] = []"
| "universal_newlines [c] = (if c = CHR 0x0D then ''\<newline>'' else [c])"
| "universal_newlines (c # c' # s) =
     (if c = CHR 0x0D \<and> c' = CHR ''\<newline>'' then CHR ''\<newline>'' # universal_newlines s
      else if c = CHR 0x0D then CHR ''\<newline>'' # universal_newlines (c' # s)
      else c # universal_newlines (c' # s))"

subsection \<open>Files\<close>

text \<open>
  The operating system is a parameter. \<open>makedirs path\<close> is what
  \<open>os.makedirs(path, exist_ok=True)\<close> does: the message of the OSError it raises, or
  nothing. \<open>locate path\<close> is what \<open>open(path, "w")\<close> does: the message of the OSError it
  raises, or the file that the path names; two paths can name one file. The files are a
  map from a file to its text, and writing to a file replaces its text. The system is a
  POSIX one, as for the paths: a line feed is written as it is.

  Lines 47 to 51 then go through the writes in order and stop at the first \<open>open\<close> that
  raises.
\<close>

fun write_files ::
  "(string \<Rightarrow> string + 'file) \<Rightarrow> (string \<times> string) list \<Rightarrow> ('file \<rightharpoonup> string) \<Rightarrow>
   exn option \<times> ('file \<rightharpoonup> string)"
where
  "write_files locate [] files = (None, files)"
| "write_files locate (w # rest) files =
     (case locate (fst w) of
        Inl msg \<Rightarrow> (Some (OSError msg), files)
      | Inr file \<Rightarrow> write_files locate rest (files(file \<mapsto> snd w)))"

record 'file split_call =
  files_after :: "'file \<rightharpoonup> string"
  result :: "exn + string"

text \<open>
  The call of \<open>split_file_by_instruction_code\<close> on an input file whose stored text is
  \<open>stored\<close>: line 27, lines 30 to 44, lines 47 to 51, line 59.
\<close>

definition split_file_by_instruction_code_io ::
  "(string \<Rightarrow> string option) \<Rightarrow> (string \<Rightarrow> string + 'file) \<Rightarrow> string \<Rightarrow> string \<Rightarrow> string \<Rightarrow>
   ('file \<rightharpoonup> string) \<Rightarrow> 'file split_call"
where
  "split_file_by_instruction_code_io makedirs locate input_dir stored delimiter files =
     (case makedirs (os_path_join input_dir ''intermediate'') of
        Some msg \<Rightarrow> \<lparr>files_after = files, result = Inl (OSError msg)\<rparr>
      | None \<Rightarrow>
          (let run = split_file_by_instruction_code input_dir (universal_newlines stored) delimiter
           in case outcome run of
                Inl e \<Rightarrow> \<lparr>files_after = files, result = Inl e\<rparr>
              | Inr output_folder \<Rightarrow>
                  (case write_files locate (written run) files of
                     (Some e, files') \<Rightarrow> \<lparr>files_after = files', result = Inl e\<rparr>
                   | (None, files') \<Rightarrow> \<lparr>files_after = files', result = Inr output_folder\<rparr>)))"

text \<open>
  Vocabulary: the paths of the group files, in the order of the groups, and the text of a
  file, empty when there is no such file.
\<close>

definition group_paths :: "string \<Rightarrow> string \<Rightarrow> string list \<Rightarrow> string list" where
  "group_paths input_dir delimiter data_lines =
     map (\<lambda>k. os_path_join (os_path_join input_dir ''intermediate'') (k @ ''.txt''))
       (first_seen (map (field1 delimiter) data_lines))"

definition text_of :: "('file \<rightharpoonup> string) \<Rightarrow> 'file \<Rightarrow> string" where
  "text_of files file = (case files file of None \<Rightarrow> [] | Some text \<Rightarrow> text)"

text \<open>
  The fields of a line as section 4.1 of the specification words them: the line is split
  on the delimiter, with no trimming other than the stripping of its line ending.
\<close>

definition strip_line_ending :: "string \<Rightarrow> string" where
  "strip_line_ending line =
     (if line \<noteq> [] \<and> last line = CHR ''\<newline>'' then butlast line else line)"

definition spec_fields :: "string \<Rightarrow> string \<Rightarrow> exn + string list" where
  "spec_fields delimiter line = split (strip_line_ending line) delimiter"

text \<open>
  The call of \<open>convert_text_to_excel\<close>: line 84 makes the output folder, outside every
  \<open>try\<close>; then come the loop and line 141, which returns \<open>excel_files\<close>.
\<close>

record 'row convert_call =
  effects :: "'row convert_run"
  returned :: "exn + string list"

definition convert_text_to_excel_io ::
  "(string \<Rightarrow> string option) \<Rightarrow> (string \<Rightarrow> string \<Rightarrow> string + 'row list) \<Rightarrow>
   (string \<Rightarrow> 'row list \<Rightarrow> string option) \<Rightarrow> string list \<Rightarrow> string \<Rightarrow> string option \<Rightarrow> string \<Rightarrow>
   int \<Rightarrow> 'row convert_call"
where
  "convert_text_to_excel_io makedirs read_csv to_excel text_files input_folder output_folder
     delimiter max_rows =
     (case makedirs (case output_folder of None \<Rightarrow> input_folder | Some folder \<Rightarrow> folder) of
        Some msg \<Rightarrow> \<lparr>effects = no_effects, returned = Inl (OSError msg)\<rparr>
      | None \<Rightarrow>
          (let run = convert_text_to_excel read_csv to_excel text_files input_folder output_folder
                       delimiter max_rows
           in \<lparr>effects = run, returned = Inr (excel_files run)\<rparr>))"

section \<open>Properties of the grouping stage\<close>

subsection \<open>Dictionary updates\<close>

lemma keys_dict_setitem:
  "map fst (dict_setitem k v d) = (if k \<in> set (map fst d) then map fst d else map fst d @ [k])"
  by (induction d) auto

lemma map_of_dict_setitem: "map_of (dict_setitem k v d) = (map_of d)(k \<mapsto> v)"
  by (induction d) (auto simp: fun_eq_iff)

lemma dom_dict_setitem: "fst ` set (dict_setitem k v d) = insert k (fst ` set d)"
  by (induction d) auto

lemma distinct_dict_setitem:
  "distinct (map fst d) \<Longrightarrow> distinct (map fst (dict_setitem k v d))"
  by (simp add: keys_dict_setitem)

lemma two_fieldsD:
  "two_fields delimiter line \<Longrightarrow>
     split (strip line) delimiter = Inr (split_from delimiter [] (strip line)) \<and>
     getitem (split_from delimiter [] (strip line)) 1 = Inr (field1 delimiter line)"
  by (auto simp: two_fields_def split_def getitem_def field1_def split: if_splits)

lemma group_lines_step:
  assumes "two_fields delimiter line"
  shows "group_lines delimiter (line # rest) g =
           group_lines delimiter rest
             (dict_setitem (field1 delimiter line) (records_of g (field1 delimiter line) @ [line])
                (if field1 delimiter line \<in> set (map fst g) then g
                 else dict_setitem (field1 delimiter line) [] g))"
proof -
  let ?k = "field1 delimiter line"
  show ?thesis
  proof (cases "?k \<in> set (map fst g)")
    case True
    then obtain rs where "map_of g ?k = Some rs"
      by (metis map_of_eq_None_iff not_None_eq set_map)
    with True show ?thesis
      using two_fieldsD [OF assms]
      by (simp add: dict_contains_def dict_getitem_def records_of_def)
  next
    case False
    then have "map_of g ?k = None"
      by (simp add: map_of_eq_None_iff)
    with False show ?thesis
      using two_fieldsD [OF assms]
      by (simp add: dict_contains_def dict_getitem_def records_of_def map_of_dict_setitem)
  qed
qed

lemma group_lines_general:
  assumes "\<forall>l \<in> set ls. two_fields delimiter l" and "distinct (map fst g)"
  shows "\<exists>g'. group_lines delimiter ls g = Inr g' \<and> distinct (map fst g') \<and>
           map fst g' = map fst g @
             filter (\<lambda>k. k \<notin> set (map fst g)) (first_seen (map (field1 delimiter) ls)) \<and>
           (\<forall>k. records_of g' k = records_of g k @ filter (\<lambda>l. field1 delimiter l = k) ls)"
  using assms
proof (induction ls arbitrary: g)
  case Nil
  then show ?case by simp
next
  case (Cons line rest)
  let ?k = "field1 delimiter line"
  let ?g0 = "if ?k \<in> set (map fst g) then g else dict_setitem ?k [] g"
  let ?g1 = "dict_setitem ?k (records_of g ?k @ [line]) ?g0"
  have tf: "two_fields delimiter line" and rest: "\<forall>l \<in> set rest. two_fields delimiter l"
    using Cons.prems(1) by simp_all
  have d1: "distinct (map fst ?g1)"
    using Cons.prems(2) by (simp add: distinct_dict_setitem)
  have keys1: "map fst ?g1 = (if ?k \<in> set (map fst g) then map fst g else map fst g @ [?k])"
    by (simp add: keys_dict_setitem dom_dict_setitem)
  have recs1: "records_of ?g1 k = records_of g k @ (if ?k = k then [line] else [])" for k
    by (simp add: records_of_def map_of_dict_setitem)
  from Cons.IH [OF rest d1] obtain g' where
    run: "group_lines delimiter rest ?g1 = Inr g'" and dg: "distinct (map fst g')" and
    keys: "map fst g' = map fst ?g1 @
             filter (\<lambda>k. k \<notin> set (map fst ?g1)) (first_seen (map (field1 delimiter) rest))" and
    recs: "\<forall>k. records_of g' k = records_of ?g1 k @ filter (\<lambda>l. field1 delimiter l = k) rest"
    by blast
  have a: "group_lines delimiter (line # rest) g = Inr g'"
    using group_lines_step [OF tf] run by simp
  have kset: "set (map fst ?g1) = insert ?k (set (map fst g))"
    by (simp add: dom_dict_setitem)
  have keys': "map fst g' = map fst ?g1 @
             filter (\<lambda>k. k \<noteq> ?k \<and> k \<notin> set (map fst g)) (first_seen (map (field1 delimiter) rest))"
    using keys unfolding kset by simp
  have b: "map fst g' = map fst g @
             filter (\<lambda>k. k \<notin> set (map fst g)) (first_seen (map (field1 delimiter) (line # rest)))"
  proof (cases "?k \<in> set (map fst g)")
    case True
    have "filter (\<lambda>k. k \<noteq> ?k \<and> k \<notin> set (map fst g)) xs =
          filter (\<lambda>k. k \<notin> set (map fst g)) xs" for xs
      using True by (auto intro: filter_cong)
    then show ?thesis
      using True keys1 by (simp add: keys' conj_commute)
  next
    case False
    then show ?thesis
      using keys1 by (simp add: keys' conj_commute)
  qed
  have c: "\<forall>k. records_of g' k = records_of g k @ filter (\<lambda>l. field1 delimiter l = k) (line # rest)"
    using recs recs1 by simp
  from a b c dg show ?case by blast
qed

lemma dict_from_keys:
  "distinct (map fst d) \<Longrightarrow> d = map (\<lambda>k. (k, records_of d k)) (map fst d)"
proof (induction d)
  case Nil
  then show ?case by simp
next
  case (Cons p d)
  obtain k v where p: "p = (k, v)" by (cases p)
  have "map (\<lambda>k'. (k', records_of ((k, v) # d) k')) (map fst d) =
        map (\<lambda>k'. (k', records_of d k')) (map fst d)"
    using Cons.prems p by (auto simp: records_of_def)
  with Cons p show ?case by (simp add: records_of_def)
qed

lemma group_lines_closed:
  assumes "\<forall>l \<in> set ls. two_fields delimiter l"
  shows "group_lines delimiter ls [] =
           Inr (map (\<lambda>k. (k, filter (\<lambda>l. field1 delimiter l = k) ls))
                  (first_seen (map (field1 delimiter) ls)))"
proof -
  from group_lines_general [OF assms, of "[]"] obtain g' where
    run: "group_lines delimiter ls [] = Inr g'" and dg: "distinct (map fst g')" and
    keys: "map fst g' = first_seen (map (field1 delimiter) ls)" and
    recs: "\<forall>k. records_of g' k = filter (\<lambda>l. field1 delimiter l = k) ls"
    by (auto simp: records_of_def)
  from dict_from_keys [OF dg] keys recs run show ?thesis by simp
qed


lemma distinct_first_seen: "distinct (first_seen xs)"
  by (induction xs) auto

lemma set_first_seen: "set (first_seen xs) = set xs"
  by (induction xs) auto


lemma concat_single_key:
  "distinct ks \<Longrightarrow> x \<in> set ks \<Longrightarrow> concat (map (\<lambda>k. if x = k then [a] else []) ks) = [a]"
proof (induction ks)
  case Nil
  then show ?case by simp
next
  case (Cons k ks)
  show ?case
  proof (cases "x = k")
    case True
    then have "x \<notin> set ks" using Cons.prems(1) by auto
    then have "concat (map (\<lambda>k. if x = k then [a] else []) ks) = []"
      by (induction ks) auto
    with True show ?thesis by simp
  next
    case False
    with Cons show ?thesis by auto
  qed
qed

lemma mset_by_key:
  assumes "distinct ks" and "f ` set ls \<subseteq> set ks"
  shows "mset (concat (map (\<lambda>k. filter (\<lambda>l. f l = k) ls) ks)) = mset ls"
  using assms(2)
proof (induction ls)
  case Nil
  show ?case by (induction ks) auto
next
  case (Cons a ls)
  have one: "concat (map (\<lambda>k. if f a = k then [a] else []) ks) = [a]"
    using assms(1) Cons.prems by (intro concat_single_key) auto
  have split: "mset (concat (map (\<lambda>k. filter (\<lambda>l. f l = k) (a # ls)) ks)) =
        mset (concat (map (\<lambda>k. if f a = k then [a] else []) ks)) +
        mset (concat (map (\<lambda>k. filter (\<lambda>l. f l = k) ls) ks))"
    by (induction ks) auto
  from Cons have "mset (concat (map (\<lambda>k. filter (\<lambda>l. f l = k) ls) ks)) = mset ls"
    by simp
  with one split show ?case by simp
qed

lemma group_lines_fail:
  assumes "\<exists>l \<in> set ls. \<not> two_fields delimiter l"
  shows "group_lines delimiter ls g = Inl (if delimiter = [] then ValueError else IndexError)"
  using assms
proof (induction ls arbitrary: g)
  case Nil
  then show ?case by simp
next
  case (Cons line rest)
  show ?case
  proof (cases "two_fields delimiter line")
    case True
    with Cons.prems have "\<exists>l \<in> set rest. \<not> two_fields delimiter l" by simp
    from Cons.IH [OF this] show ?thesis
      by (simp only: group_lines_step [OF True])
  next
    case False
    then show ?thesis
      by (auto simp: two_fields_def split_def getitem_def split: if_splits)
  qed
qed

subsection \<open>Grouping\<close>

text \<open>
  Claim C1, as the code has it. The claim takes the fields of a data line as the line
  splits under the delimiter. Line 40 strips the line of all leading and trailing
  whitespace before it splits it, so the fields of the code are those of the stripped
  line. The next theorem evaluates the loop twice. With a space as delimiter, the line
  \<open>1\<close> followed by a space has two fields, the second empty, and the loop raises
  IndexError on it. With \<open>~\<close> as delimiter, the second columns \<open>A\<close> followed by a
  space and \<open>A\<close> are different, and the loop puts both lines into the group \<open>A\<close>.
\<close>

theorem grouping_by_second_column_counterexample:
  "spec_fields '' '' ''1 \<newline>'' = Inr [''1'', ''''] \<and>
   group_lines '' '' [''1 \<newline>''] [] = Inl IndexError \<and>
   spec_fields ''~'' ''1~A \<newline>'' = Inr [''1'', ''A ''] \<and>
   spec_fields ''~'' ''2~A\<newline>'' = Inr [''2'', ''A''] \<and>
   group_lines ''~'' [''1~A \<newline>'', ''2~A\<newline>''] [] = Inr [(''A'', [''1~A \<newline>'', ''2~A\<newline>''])]"
  by code_simp

text \<open>
  Claim C1, as amended. When every data line, stripped of leading and trailing whitespace,
  splits into at least two fields under the delimiter, the loop of lines 38 to 44
  returns a dictionary with distinct keys; the key of every data line, the field at
  index 1 of the stripped line, is one of them; the records of a key are exactly the
  data lines with that key, in the order of the source; and all groups together hold
  each data line as often as the source does. So every data line is in exactly one
  group, the one of the second column of the stripped line.
\<close>

theorem grouping_by_second_column:
  assumes "\<forall>l \<in> set data_lines. two_fields delimiter l"
  shows "\<exists>grouped_data.
           group_lines delimiter data_lines [] = Inr grouped_data \<and>
           distinct (map fst grouped_data) \<and>
           (\<forall>l \<in> set data_lines. field1 delimiter l \<in> set (map fst grouped_data)) \<and>
           (\<forall>(k, records) \<in> set grouped_data.
              records = filter (\<lambda>l. field1 delimiter l = k) data_lines) \<and>
           mset (concat (map snd grouped_data)) = mset data_lines"
proof -
  let ?ks = "first_seen (map (field1 delimiter) data_lines)"
  let ?g = "map (\<lambda>k. (k, filter (\<lambda>l. field1 delimiter l = k) data_lines)) ?ks"
  have run: "group_lines delimiter data_lines [] = Inr ?g"
    by (rule group_lines_closed [OF assms])
  have keys: "map fst ?g = ?ks"
    by (simp add: comp_def)
  have d: "distinct (map fst ?g)"
    unfolding keys by (rule distinct_first_seen)
  have cover: "\<forall>l \<in> set data_lines. field1 delimiter l \<in> set (map fst ?g)"
    unfolding keys by (simp add: set_first_seen)
  have recs: "\<forall>(k, records) \<in> set ?g. records = filter (\<lambda>l. field1 delimiter l = k) data_lines"
    by auto
  have "map snd ?g = map (\<lambda>k. filter (\<lambda>l. field1 delimiter l = k) data_lines) ?ks"
    by (simp add: comp_def)
  moreover have "mset (concat (map (\<lambda>k. filter (\<lambda>l. field1 delimiter l = k) data_lines) ?ks)) =
                 mset data_lines"
    by (rule mset_by_key) (simp_all add: distinct_first_seen set_first_seen)
  ultimately have all: "mset (concat (map snd ?g)) = mset data_lines"
    by (simp only:)
  from run d cover recs all show ?thesis by blast
qed

theorem grouping_by_second_column_witness:
  "two_fields ''~'' ''1~A~10\<newline>'' \<and> two_fields ''~'' ''2~B~20\<newline>'' \<and>
   two_fields ''~'' ''3~A~30\<newline>'' \<and>
   (\<exists>grouped_data.
      group_lines ''~'' [''1~A~10\<newline>'', ''2~B~20\<newline>'', ''3~A~30\<newline>''] [] = Inr grouped_data \<and>
      distinct (map fst grouped_data) \<and>
      (\<forall>l \<in> set [''1~A~10\<newline>'', ''2~B~20\<newline>'', ''3~A~30\<newline>''].
         field1 ''~'' l \<in> set (map fst grouped_data)) \<and>
      (\<forall>(k, records) \<in> set grouped_data.
         records = filter (\<lambda>l. field1 ''~'' l = k) [''1~A~10\<newline>'', ''2~B~20\<newline>'', ''3~A~30\<newline>'']) \<and>
      mset (concat (map snd grouped_data)) = mset [''1~A~10\<newline>'', ''2~B~20\<newline>'', ''3~A~30\<newline>''])"
proof -
  have h: "\<forall>l \<in> set [''1~A~10\<newline>'', ''2~B~20\<newline>'', ''3~A~30\<newline>'']. two_fields ''~'' l"
    by code_simp
  show ?thesis
    using h grouping_by_second_column [OF h] by simp
qed

subsection \<open>Lines of a text\<close>

lemma lines_of_text_Cons:
  "lines_of_text (l # ls) =
     (l \<noteq> [] \<and> CHR ''\<newline>'' \<notin> set (butlast l) \<and> (ls = [] \<or> last l = CHR ''\<newline>'') \<and>
      lines_of_text ls)"
  by (cases ls) auto

lemma lines_of_text_filter: "lines_of_text ls \<Longrightarrow> lines_of_text (filter P ls)"
proof (induction ls)
  case Nil
  then show ?case by simp
next
  case (Cons l ls)
  then show ?case
    by (cases "filter P ls = []") (auto simp: lines_of_text_Cons filter_empty_conv)
qed

lemma lines_of_text_drop1: "lines_of_text ls \<Longrightarrow> lines_of_text (drop 1 ls)"
  by (cases ls) (auto simp: lines_of_text_Cons)

lemma lines_of_text_terminated:
  "lines_of_text ls \<Longrightarrow> \<forall>l \<in> set (butlast ls). l \<noteq> [] \<and> last l = CHR ''\<newline>''"
  by (induction ls) (auto simp: lines_of_text_Cons)

lemma readlines_from_line:
  "CHR ''\<newline>'' \<notin> set a \<Longrightarrow>
     readlines_from cur (a @ CHR ''\<newline>'' # s) = (cur @ a @ ''\<newline>'') # readlines_from [] s"
  by (induction a arbitrary: cur) auto

lemma readlines_from_rest:
  "CHR ''\<newline>'' \<notin> set a \<Longrightarrow> readlines_from cur a = (if cur @ a = [] then [] else [cur @ a])"
  by (induction a arbitrary: cur) auto

lemma lines_of_text_readlines_from:
  "CHR ''\<newline>'' \<notin> set cur \<Longrightarrow> lines_of_text (readlines_from cur s)"
proof (induction s arbitrary: cur)
  case Nil
  then show ?case by (auto dest: in_set_butlastD)
next
  case (Cons c cs)
  show ?case
  proof (cases "c = CHR ''\<newline>''")
    case True
    have "lines_of_text (readlines_from [] cs)"
      by (rule Cons.IH) simp
    with True Cons.prems show ?thesis
      by (simp add: lines_of_text_Cons)
  next
    case False
    with Cons.prems have "CHR ''\<newline>'' \<notin> set (cur @ [c])" by simp
    from Cons.IH [OF this] False show ?thesis by simp
  qed
qed

lemma lines_of_text_readlines: "lines_of_text (readlines content)"
  by (simp add: readlines_def lines_of_text_readlines_from)

lemma readlines_concat: "lines_of_text ls \<Longrightarrow> readlines_from [] (concat ls) = ls"
proof (induction ls)
  case Nil
  then show ?case by simp
next
  case (Cons l ls)
  from Cons.prems have l: "l \<noteq> []" "CHR ''\<newline>'' \<notin> set (butlast l)"
    and rest: "lines_of_text ls" and final: "ls = [] \<or> last l = CHR ''\<newline>''"
    by (simp_all add: lines_of_text_Cons)
  have split: "l = butlast l @ [last l]"
    using l(1) by simp
  show ?case
  proof (cases "last l = CHR ''\<newline>''")
    case True
    have "readlines_from [] (butlast l @ CHR ''\<newline>'' # concat ls) =
          ([] @ butlast l @ ''\<newline>'') # readlines_from [] (concat ls)"
      by (rule readlines_from_line [OF l(2)])
    moreover have "butlast l @ CHR ''\<newline>'' # concat ls = concat (l # ls)"
      using split True by (metis append.assoc append_Cons append_Nil concat.simps(2))
    moreover have "butlast l @ ''\<newline>'' = l"
      using split True by simp
    ultimately show ?thesis
      using Cons.IH [OF rest] by simp
  next
    case False
    with final have nil: "ls = []" by simp
    have "CHR ''\<newline>'' \<notin> set l"
      using l(2) False split by (metis in_set_butlastD in_set_conv_decomp_last last_snoc butlast_snoc
          rotate1.simps(2) set_rotate1 set_ConsD)
    from readlines_from_rest [OF this, of "[]"] l(1) nil show ?thesis by simp
  qed
qed

lemma set_dropWhile_subset: "set (dropWhile P xs) \<subseteq> set xs"
  by (induction xs) auto

lemma newline_not_in_strip:
  assumes "CHR ''\<newline>'' \<notin> set (butlast l)"
  shows "CHR ''\<newline>'' \<notin> set (strip l)"
proof -
  define m where "m = dropWhile isspace l"
  obtain pre where l: "l = pre @ m"
    unfolding m_def by (metis takeWhile_dropWhile_id)
  have strip: "strip l = rev (dropWhile isspace (rev m))"
    by (simp add: strip_def m_def)
  show ?thesis
  proof (cases m rule: rev_cases)
    case Nil
    then show ?thesis by (simp add: strip)
  next
    case (snoc b x)
    with l have "butlast l = pre @ b"
      by (simp add: butlast_append)
    with assms have b: "CHR ''\<newline>'' \<notin> set b" by simp
    have sub: "set (dropWhile isspace (rev b)) \<subseteq> set b"
      using set_dropWhile_subset [of isspace "rev b"] by simp
    show ?thesis
    proof (cases "x = CHR ''\<newline>''")
      case True
      then have "isspace x" by (simp add: isspace_def)
      then have "strip l = rev (dropWhile isspace (rev b))"
        by (simp add: strip snoc)
      with sub b show ?thesis by auto
    next
      case False
      have "set (strip l) \<subseteq> set m"
        using set_dropWhile_subset [of isspace "rev m"] by (simp add: strip)
      with False b snoc show ?thesis by auto
    qed
  qed
qed

lemma readlines_group_file:
  assumes "CHR ''\<newline>'' \<notin> set header" and "lines_of_text records"
  shows "readlines (group_file header records) = (header @ ''\<newline>'') # records"
proof -
  have "readlines_from [] (header @ CHR ''\<newline>'' # concat records) =
        ([] @ header @ ''\<newline>'') # readlines_from [] (concat records)"
    by (rule readlines_from_line [OF assms(1)])
  with readlines_concat [OF assms(2)] show ?thesis
    by (simp add: readlines_def group_file_def)
qed

subsection \<open>The files written\<close>

lemma split_lines_closed:
  assumes "\<forall>l \<in> set data_lines. two_fields delimiter l"
  shows "split_lines input_dir (line0 # data_lines) delimiter =
           \<lparr>made_dirs = [os_path_join input_dir ''intermediate''],
            written =
              map (\<lambda>k. (os_path_join (os_path_join input_dir ''intermediate'') (k @ ''.txt''),
                         group_file (strip line0) (filter (\<lambda>l. field1 delimiter l = k) data_lines)))
                (first_seen (map (field1 delimiter) data_lines)),
            outcome = Inr (os_path_join input_dir ''intermediate'')\<rparr>"
  by (simp add: split_lines_def getitem_def group_lines_closed [OF assms] comp_def Let_def)

lemma split_lines_fail:
  assumes "\<exists>l \<in> set (drop 1 lines). \<not> two_fields delimiter l"
  shows "split_lines input_dir lines delimiter =
           \<lparr>made_dirs = [os_path_join input_dir ''intermediate''], written = [],
            outcome = Inl (if delimiter = [] then ValueError else IndexError)\<rparr>"
proof (cases lines)
  case Nil
  with assms show ?thesis by simp
next
  case (Cons line0 data_lines)
  with assms have "\<exists>l \<in> set data_lines. \<not> two_fields delimiter l" by simp
  from group_lines_fail [OF this] Cons show ?thesis
    by (simp add: split_lines_def getitem_def Let_def)
qed

text \<open>
  Claim C3, as the code has it. The claim says that a data line with fewer than two
  fields makes the grouping stage fail with a MalformedRecordError that identifies the
  line. The code has no such error: \<open>columns[1]\<close> raises IndexError, which carries no
  line number (and \<open>split\<close> raises ValueError when the delimiter is empty). The next
  theorem evaluates the code on a file whose third line has one field.
\<close>

theorem malformed_line_counterexample:
  "outcome (split_file_by_instruction_code ''/data'' ''id~code\<newline>1~A\<newline>2\<newline>'' ''~'') = Inl IndexError \<and>
   \<not> failed_with is_MalformedRecordError
       (outcome (split_file_by_instruction_code ''/data'' ''id~code\<newline>1~A\<newline>2\<newline>'' ''~''))"
  by code_simp

text \<open>
  Claim C3, as amended. When some data line does not split into at least two fields, the
  call fails with IndexError (ValueError for an empty delimiter) and no file has been
  written; the directory \<open>intermediate\<close> has been made by then.
\<close>

theorem malformed_line_fails_before_writing:
  assumes "\<exists>l \<in> set (drop 1 (readlines content)). \<not> two_fields delimiter l"
  shows "written (split_file_by_instruction_code input_dir content delimiter) = [] \<and>
         outcome (split_file_by_instruction_code input_dir content delimiter) =
           Inl (if delimiter = [] then ValueError else IndexError)"
  by (simp add: split_file_by_instruction_code_def split_lines_fail [OF assms])

theorem malformed_line_fails_before_writing_witness:
  "(\<exists>l \<in> set (drop 1 (readlines ''id~code\<newline>1~A\<newline>2\<newline>'')). \<not> two_fields ''~'' l) \<and>
   written (split_file_by_instruction_code ''/data'' ''id~code\<newline>1~A\<newline>2\<newline>'' ''~'') = [] \<and>
   outcome (split_file_by_instruction_code ''/data'' ''id~code\<newline>1~A\<newline>2\<newline>'' ''~'') = Inl IndexError"
proof -
  have h: "\<exists>l \<in> set (drop 1 (readlines ''id~code\<newline>1~A\<newline>2\<newline>'')). \<not> two_fields ''~'' l"
    by code_simp
  show ?thesis
    using h malformed_line_fails_before_writing [OF h, of "''/data''"] by simp
qed

text \<open>
  Claim C9. The groups are a function of the data lines and the delimiter alone, so two
  runs on the same lines agree. Their order is fixed: the keys of the dictionary, and
  the files written for them, follow the order in which each key first occurs in the
  data lines.
\<close>

theorem groups_in_first_seen_order:
  assumes "\<forall>l \<in> set data_lines. two_fields delimiter l"
  shows "\<exists>grouped_data.
           group_lines delimiter data_lines [] = Inr grouped_data \<and>
           map fst grouped_data = first_seen (map (field1 delimiter) data_lines) \<and>
           map fst (written (split_lines input_dir (line0 # data_lines) delimiter)) =
             map (\<lambda>k. os_path_join (os_path_join input_dir ''intermediate'') (k @ ''.txt''))
               (first_seen (map (field1 delimiter) data_lines))"
  by (simp add: split_lines_closed [OF assms] group_lines_closed [OF assms] comp_def)

theorem groups_in_first_seen_order_witness:
  "two_fields ''~'' ''1~B\<newline>'' \<and> two_fields ''~'' ''2~A\<newline>'' \<and> two_fields ''~'' ''3~B\<newline>'' \<and>
   (\<exists>grouped_data.
      group_lines ''~'' [''1~B\<newline>'', ''2~A\<newline>'', ''3~B\<newline>''] [] = Inr grouped_data \<and>
      map fst grouped_data = [''B'', ''A''] \<and>
      map fst (written (split_lines ''/data'' [''id~code\<newline>'', ''1~B\<newline>'', ''2~A\<newline>'', ''3~B\<newline>''] ''~'')) =
        [''/data/intermediate/B.txt'', ''/data/intermediate/A.txt''])"
proof -
  have h: "\<forall>l \<in> set [''1~B\<newline>'', ''2~A\<newline>'', ''3~B\<newline>'']. two_fields ''~'' l"
    by code_simp
  have ks: "first_seen (map (field1 ''~'') [''1~B\<newline>'', ''2~A\<newline>'', ''3~B\<newline>'']) = [''B'', ''A'']"
    by code_simp
  have p: "map (\<lambda>k. os_path_join (os_path_join ''/data'' ''intermediate'') (k @ ''.txt'')) [''B'', ''A''] =
           [''/data/intermediate/B.txt'', ''/data/intermediate/A.txt'']"
    by code_simp
  show ?thesis
    using h groups_in_first_seen_order [OF h, of "''/data''" "''id~code\<newline>''"]
    unfolding ks p by simp
qed

text \<open>
  Claim C10. When the input has exactly one line, the loop runs over no data line and
  gives the empty dictionary, no file is written, and the call returns the output
  folder.
\<close>

theorem header_only_input:
  assumes "readlines content = [line0]"
  shows "group_lines delimiter (drop 1 (readlines content)) [] = Inr [] \<and>
         split_file_by_instruction_code input_dir content delimiter =
           \<lparr>made_dirs = [os_path_join input_dir ''intermediate''], written = [],
            outcome = Inr (os_path_join input_dir ''intermediate'')\<rparr>"
  by (simp add: assms split_file_by_instruction_code_def split_lines_def getitem_def Let_def)

theorem header_only_input_witness:
  "readlines ''id~code~amount\<newline>'' = [''id~code~amount\<newline>''] \<and>
   group_lines ''~'' (drop 1 (readlines ''id~code~amount\<newline>'')) [] = Inr [] \<and>
   split_file_by_instruction_code ''/data'' ''id~code~amount\<newline>'' ''~'' =
     \<lparr>made_dirs = [''/data/intermediate''], written = [], outcome = Inr ''/data/intermediate''\<rparr>"
proof -
  have h: "readlines ''id~code~amount\<newline>'' = [''id~code~amount\<newline>'']"
    by code_simp
  have p: "os_path_join ''/data'' ''intermediate'' = ''/data/intermediate''"
    by code_simp
  show ?thesis
    using h header_only_input [OF h, of "''~''" "''/data''"] unfolding p by simp
qed

subsection \<open>The files after the call\<close>

lemma write_files_elsewhere:
  "\<forall>w \<in> set ws. locate (fst w) \<noteq> Inr file \<Longrightarrow>
     snd (write_files locate ws files) file = files file"
proof (induction ws arbitrary: files)
  case Nil
  then show ?case by simp
next
  case (Cons w rest)
  show ?case
  proof (cases "locate (fst w)")
    case (Inl msg)
    then show ?thesis by simp
  next
    case (Inr f)
    with Cons.prems have ne: "f \<noteq> file" by auto
    from Cons.prems have "\<forall>w \<in> set rest. locate (fst w) \<noteq> Inr file" by simp
    then have "snd (write_files locate rest (files(f \<mapsto> snd w))) file = (files(f \<mapsto> snd w)) file"
      by (rule Cons.IH)
    with ne Inr show ?thesis by simp
  qed
qed

lemma write_files_distinct:
  assumes "map (\<lambda>w. locate (fst w)) ws = map Inr targets" and "distinct targets"
  shows "fst (write_files locate ws files) = None \<and>
         (\<forall>i < length ws. snd (write_files locate ws files) (targets ! i) = Some (snd (ws ! i)))"
  using assms
proof (induction ws arbitrary: files targets)
  case Nil
  then show ?case by simp
next
  case (Cons w rest)
  from Cons.prems(1) obtain f fs where t: "targets = f # fs"
    and f: "locate (fst w) = Inr f"
    and rest: "map (\<lambda>w. locate (fst w)) rest = map Inr fs"
    by (cases targets) auto
  from Cons.prems(2) t have d: "distinct fs" and nf: "f \<notin> set fs" by simp_all
  have step: "write_files locate (w # rest) files = write_files locate rest (files(f \<mapsto> snd w))"
    using f by simp
  from Cons.IH [OF rest d, of "files(f \<mapsto> snd w)"]
  have ih1: "fst (write_files locate rest (files(f \<mapsto> snd w))) = None"
    and ih2: "\<forall>i < length rest.
                snd (write_files locate rest (files(f \<mapsto> snd w))) (fs ! i) = Some (snd (rest ! i))"
    by blast+
  have "\<forall>w' \<in> set rest. locate (fst w') \<noteq> Inr f"
  proof
    fix w'
    assume "w' \<in> set rest"
    then have "locate (fst w') \<in> set (map (\<lambda>w. locate (fst w)) rest)" by simp
    with rest have "locate (fst w') \<in> Inr ` set fs" by simp
    with nf show "locate (fst w') \<noteq> Inr f" by auto
  qed
  then have "snd (write_files locate rest (files(f \<mapsto> snd w))) f = (files(f \<mapsto> snd w)) f"
    by (rule write_files_elsewhere)
  then have first: "snd (write_files locate rest (files(f \<mapsto> snd w))) f = Some (snd w)"
    by simp
  have "snd (write_files locate (w # rest) files) (targets ! i) = Some (snd ((w # rest) ! i))"
    if "i < length (w # rest)" for i
  proof (cases i)
    case 0
    with first show ?thesis unfolding step by (simp add: t)
  next
    case (Suc j)
    with that have "j < length rest" by simp
    with ih2 Suc show ?thesis unfolding step by (simp add: t)
  qed
  with ih1 show ?case by (simp only: step) blast
qed

lemma split_io_groups:
  assumes mk: "makedirs (os_path_join input_dir ''intermediate'') = None"
    and rl: "readlines (universal_newlines stored) = line0 # data_lines"
    and tf: "\<forall>l \<in> set data_lines. two_fields delimiter l"
    and loc: "map locate (group_paths input_dir delimiter data_lines) = map Inr targets"
    and d: "distinct targets"
  shows "result (split_file_by_instruction_code_io makedirs locate input_dir stored delimiter files) =
           Inr (os_path_join input_dir ''intermediate'') \<and>
         length targets = length (first_seen (map (field1 delimiter) data_lines)) \<and>
         (\<forall>i < length targets.
            files_after (split_file_by_instruction_code_io makedirs locate input_dir stored delimiter
                           files) (targets ! i) =
              Some (group_file (strip line0)
                      (filter (\<lambda>l. field1 delimiter l =
                                 first_seen (map (field1 delimiter) data_lines) ! i) data_lines)))"
proof -
  let ?keys = "first_seen (map (field1 delimiter) data_lines)"
  let ?out = "os_path_join input_dir ''intermediate''"
  let ?ws = "map (\<lambda>k. (os_path_join ?out (k @ ''.txt''),
                        group_file (strip line0) (filter (\<lambda>l. field1 delimiter l = k) data_lines)))
               ?keys"
  have run: "split_file_by_instruction_code input_dir (universal_newlines stored) delimiter =
               \<lparr>made_dirs = [?out], written = ?ws, outcome = Inr ?out\<rparr>"
    by (simp add: split_file_by_instruction_code_def rl split_lines_closed [OF tf])
  have "map (\<lambda>w. locate (fst w)) ?ws = map locate (group_paths input_dir delimiter data_lines)"
    by (simp add: group_paths_def comp_def)
  with loc have l: "map (\<lambda>w. locate (fst w)) ?ws = map Inr targets"
    by simp
  from write_files_distinct [OF l d, of files]
  have w1: "fst (write_files locate ?ws files) = None"
    and w2: "\<forall>i < length ?ws. snd (write_files locate ?ws files) (targets ! i) = Some (snd (?ws ! i))"
    by blast+
  have len: "length targets = length ?keys"
    using arg_cong [OF l, of length] by simp
  obtain fs where wf: "write_files locate ?ws files = (None, fs)"
    using w1 by (cases "write_files locate ?ws files") simp
  have call: "split_file_by_instruction_code_io makedirs locate input_dir stored delimiter files =
                \<lparr>files_after = fs, result = Inr ?out\<rparr>"
    unfolding split_file_by_instruction_code_io_def Let_def run
    by (simp add: mk wf)
  have "fs (targets ! i) =
          Some (group_file (strip line0) (filter (\<lambda>l. field1 delimiter l = ?keys ! i) data_lines))"
    if "i < length targets" for i
  proof -
    from that len have i: "i < length ?keys" by simp
    then have "i < length ?ws" by simp
    with w2 have "snd (write_files locate ?ws files) (targets ! i) = Some (snd (?ws ! i))"
      by blast
    with wf i show ?thesis by simp
  qed
  with len show ?thesis
    unfolding call by simp
qed

text \<open>
  Claim C5, as the code has it. The claim says that for every well-formed input the group
  files, read back in the order of the groups and without their header lines, hold every
  data line once. Line 48 builds the file name from the key alone, so two keys can name
  one file, and the second \<open>open(..., "w")\<close> empties what the first wrote. The next
  theorem evaluates the call on a file of two data lines, each of two fields, with the
  keys \<open>A\<close> and \<open>/data/intermediate/A\<close>: \<open>os.path.join\<close> gives both groups the same
  path, and the line \<open>1~A\<close> is in no file afterwards.
\<close>

theorem rejoined_groups_counterexample:
  "two_fields ''~'' ''1~A\<newline>'' \<and> two_fields ''~'' ''2~/data/intermediate/A\<newline>'' \<and>
   readlines (universal_newlines ''id~code\<newline>1~A\<newline>2~/data/intermediate/A\<newline>'') =
     [''id~code\<newline>'', ''1~A\<newline>'', ''2~/data/intermediate/A\<newline>''] \<and>
   group_paths ''/data'' ''~'' [''1~A\<newline>'', ''2~/data/intermediate/A\<newline>''] =
     [''/data/intermediate/A.txt'', ''/data/intermediate/A.txt''] \<and>
   result (split_file_by_instruction_code_io (\<lambda>p. None) (\<lambda>p. Inr p) ''/data''
             ''id~code\<newline>1~A\<newline>2~/data/intermediate/A\<newline>'' ''~'' Map.empty) =
     Inr ''/data/intermediate'' \<and>
   concat (map (\<lambda>file. drop 1 (readlines (text_of
       (files_after (split_file_by_instruction_code_io (\<lambda>p. None) (\<lambda>p. Inr p) ''/data''
                       ''id~code\<newline>1~A\<newline>2~/data/intermediate/A\<newline>'' ''~'' Map.empty)) file)))
     [''/data/intermediate/A.txt'', ''/data/intermediate/A.txt'']) =
     [''2~/data/intermediate/A\<newline>'', ''2~/data/intermediate/A\<newline>'']"
  by code_simp

text \<open>
  Claim C5, as amended. When the folder \<open>intermediate\<close> can be made, the input has a header
  line, every data line, stripped, splits into at least two fields, and the paths of the
  groups open as files that are all different, then the call returns the folder, and the
  group files read back in the order of the groups, each without its first line, hold
  the data lines as read in text mode, as a multiset: none is lost, none is duplicated.
\<close>

theorem rejoined_groups_are_the_data_lines:
  assumes "makedirs (os_path_join input_dir ''intermediate'') = None"
    and "readlines (universal_newlines stored) = line0 # data_lines"
    and "\<forall>l \<in> set data_lines. two_fields delimiter l"
    and "map locate (group_paths input_dir delimiter data_lines) = map Inr targets"
    and "distinct targets"
  shows "result (split_file_by_instruction_code_io makedirs locate input_dir stored delimiter files) =
           Inr (os_path_join input_dir ''intermediate'') \<and>
         mset (concat (map (\<lambda>file. drop 1 (readlines (text_of
                 (files_after (split_file_by_instruction_code_io makedirs locate input_dir stored
                                 delimiter files)) file)))
                 targets)) =
           mset data_lines"
proof -
  let ?keys = "first_seen (map (field1 delimiter) data_lines)"
  let ?fs = "files_after (split_file_by_instruction_code_io makedirs locate input_dir stored
                            delimiter files)"
  from split_io_groups [where makedirs = makedirs and locate = locate and input_dir = input_dir
      and stored = stored and delimiter = delimiter and files = files, OF assms]
  have res: "result (split_file_by_instruction_code_io makedirs locate input_dir stored delimiter files) =
           Inr (os_path_join input_dir ''intermediate'')"
    and len: "length targets = length ?keys"
    and texts: "\<forall>i < length targets.
            ?fs (targets ! i) =
              Some (group_file (strip line0) (filter (\<lambda>l. field1 delimiter l = ?keys ! i) data_lines))"
    by blast+
  have wf: "lines_of_text (line0 # data_lines)"
    using lines_of_text_readlines [of "universal_newlines stored"] assms(2) by simp
  then have nl: "CHR ''\<newline>'' \<notin> set (strip line0)"
    by (intro newline_not_in_strip) (simp add: lines_of_text_Cons)
  from wf have wfd: "lines_of_text data_lines"
    by (simp add: lines_of_text_Cons)
  have "map (\<lambda>file. drop 1 (readlines (text_of ?fs file))) targets =
        map (\<lambda>k. filter (\<lambda>l. field1 delimiter l = k) data_lines) ?keys"
  proof (rule nth_equalityI)
    show "length (map (\<lambda>file. drop 1 (readlines (text_of ?fs file))) targets) =
          length (map (\<lambda>k. filter (\<lambda>l. field1 delimiter l = k) data_lines) ?keys)"
      using len by simp
  next
    fix i
    assume "i < length (map (\<lambda>file. drop 1 (readlines (text_of ?fs file))) targets)"
    then have i: "i < length targets" by simp
    with texts have "text_of ?fs (targets ! i) =
        group_file (strip line0) (filter (\<lambda>l. field1 delimiter l = ?keys ! i) data_lines)"
      by (simp add: text_of_def)
    then have "drop 1 (readlines (text_of ?fs (targets ! i))) =
        filter (\<lambda>l. field1 delimiter l = ?keys ! i) data_lines"
      by (simp add: readlines_group_file [OF nl lines_of_text_filter [OF wfd]])
    with i len show "map (\<lambda>file. drop 1 (readlines (text_of ?fs file))) targets ! i =
          map (\<lambda>k. filter (\<lambda>l. field1 delimiter l = k) data_lines) ?keys ! i"
      by simp
  qed
  moreover have "mset (concat (map (\<lambda>k. filter (\<lambda>l. field1 delimiter l = k) data_lines) ?keys)) =
        mset data_lines"
    by (rule mset_by_key) (simp_all add: distinct_first_seen set_first_seen)
  ultimately show ?thesis
    using res by simp
qed

theorem rejoined_groups_are_the_data_lines_witness:
  "(\<lambda>p. None :: string option) (os_path_join ''/data'' ''intermediate'') = None \<and>
   readlines (universal_newlines ''id~code\<newline>1~A\<newline>2~B\<newline>3~A'') =
     ''id~code\<newline>'' # [''1~A\<newline>'', ''2~B\<newline>'', ''3~A''] \<and>
   two_fields ''~'' ''1~A\<newline>'' \<and> two_fields ''~'' ''2~B\<newline>'' \<and> two_fields ''~'' ''3~A'' \<and>
   map (\<lambda>p. Inr p :: string + string) (group_paths ''/data'' ''~'' [''1~A\<newline>'', ''2~B\<newline>'', ''3~A'']) =
     map Inr [''/data/intermediate/A.txt'', ''/data/intermediate/B.txt''] \<and>
   distinct [''/data/intermediate/A.txt'', ''/data/intermediate/B.txt''] \<and>
   result (split_file_by_instruction_code_io (\<lambda>p. None) (\<lambda>p. Inr p) ''/data''
             ''id~code\<newline>1~A\<newline>2~B\<newline>3~A'' ''~'' Map.empty) = Inr ''/data/intermediate'' \<and>
   mset (concat (map (\<lambda>file. drop 1 (readlines (text_of
           (files_after (split_file_by_instruction_code_io (\<lambda>p. None) (\<lambda>p. Inr p) ''/data''
                           ''id~code\<newline>1~A\<newline>2~B\<newline>3~A'' ''~'' Map.empty)) file)))
           [''/data/intermediate/A.txt'', ''/data/intermediate/B.txt''])) =
     mset [''1~A\<newline>'', ''2~B\<newline>'', ''3~A'']"
proof -
  have h1: "(\<lambda>p. None :: string option) (os_path_join ''/data'' ''intermediate'') = None"
    by simp
  have h2: "readlines (universal_newlines ''id~code\<newline>1~A\<newline>2~B\<newline>3~A'') =
              ''id~code\<newline>'' # [''1~A\<newline>'', ''2~B\<newline>'', ''3~A'']"
    by code_simp
  have t: "two_fields ''~'' ''1~A\<newline>''" "two_fields ''~'' ''2~B\<newline>''" "two_fields ''~'' ''3~A''"
    by code_simp+
  then have h3: "\<forall>l \<in> set [''1~A\<newline>'', ''2~B\<newline>'', ''3~A'']. two_fields ''~'' l"
    by simp
  have h4: "map (\<lambda>p. Inr p :: string + string)
              (group_paths ''/data'' ''~'' [''1~A\<newline>'', ''2~B\<newline>'', ''3~A'']) =
            map Inr [''/data/intermediate/A.txt'', ''/data/intermediate/B.txt'']"
    by code_simp
  have h5: "distinct [''/data/intermediate/A.txt'', ''/data/intermediate/B.txt'']"
    by simp
  have p: "os_path_join ''/data'' ''intermediate'' = ''/data/intermediate''"
    by code_simp
  note inst = rejoined_groups_are_the_data_lines [where makedirs = "\<lambda>p. None"
      and locate = "\<lambda>p. Inr p" and input_dir = "''/data''"
      and stored = "''id~code\<newline>1~A\<newline>2~B\<newline>3~A''" and delimiter = "''~''"
      and files = Map.empty, OF h1 h2 h3 h4 h5, unfolded p]
  from h2 t h4 inst show ?thesis
    by simp
qed

text \<open>
  Claim C8, as the code has it. The claim says that every group file begins with the
  header line of the source verbatim and that each record ends with a line break and
  keeps its original trailing content. The code writes \<open>lines[0].strip()\<close> and a line
  break, so whitespace around the header is lost; it reads in text mode, so a carriage
  return and line feed at the end of a record comes back as one line feed; and it writes
  the records as read, so a last line without a line break is written without one. The
  next theorem evaluates the call on such a file.
\<close>

theorem group_file_header_counterexample:
  "universal_newlines ('' id~code'' @ [CHR 0x0D, CHR ''\<newline>''] @ ''1~A'' @ [CHR 0x0D, CHR ''\<newline>''] @ ''2~B'') =
     '' id~code\<newline>1~A\<newline>2~B'' \<and>
   result (split_file_by_instruction_code_io (\<lambda>p. None) (\<lambda>p. Inr p) ''/data''
      ('' id~code'' @ [CHR 0x0D, CHR ''\<newline>''] @ ''1~A'' @ [CHR 0x0D, CHR ''\<newline>''] @ ''2~B'')
      ''~'' Map.empty) = Inr ''/data/intermediate'' \<and>
   files_after (split_file_by_instruction_code_io (\<lambda>p. None) (\<lambda>p. Inr p) ''/data''
      ('' id~code'' @ [CHR 0x0D, CHR ''\<newline>''] @ ''1~A'' @ [CHR 0x0D, CHR ''\<newline>''] @ ''2~B'')
      ''~'' Map.empty) ''/data/intermediate/A.txt'' = Some ''id~code\<newline>1~A\<newline>'' \<and>
   files_after (split_file_by_instruction_code_io (\<lambda>p. None) (\<lambda>p. Inr p) ''/data''
      ('' id~code'' @ [CHR 0x0D, CHR ''\<newline>''] @ ''1~A'' @ [CHR 0x0D, CHR ''\<newline>''] @ ''2~B'')
      ''~'' Map.empty) ''/data/intermediate/B.txt'' = Some ''id~code\<newline>2~B''"
  by code_simp

text \<open>
  Claim C8, as amended. When the folder \<open>intermediate\<close> can be made, the input has a header
  line, every data line, stripped, splits into at least two fields, and the paths of the
  groups open as files that are all different, then the file of each group holds the
  stripped header line, one line break, and the data lines of that key as read in text
  mode (a line end of the source is one line feed; nothing else is changed), in the
  order of the source; every data line but the last of the source ends with a line
  break.
\<close>

theorem group_file_contents:
  assumes "makedirs (os_path_join input_dir ''intermediate'') = None"
    and "readlines (universal_newlines stored) = line0 # data_lines"
    and "\<forall>l \<in> set data_lines. two_fields delimiter l"
    and "map locate (group_paths input_dir delimiter data_lines) = map Inr targets"
    and "distinct targets"
  shows "(\<forall>i < length targets.
            files_after (split_file_by_instruction_code_io makedirs locate input_dir stored delimiter
                           files) (targets ! i) =
              Some ((strip line0 @ ''\<newline>'') @
                    concat (filter (\<lambda>l. field1 delimiter l =
                                      first_seen (map (field1 delimiter) data_lines) ! i)
                              data_lines))) \<and>
         length targets = length (first_seen (map (field1 delimiter) data_lines)) \<and>
         (\<forall>l \<in> set (butlast data_lines). l \<noteq> [] \<and> last l = CHR ''\<newline>'')"
proof -
  have "lines_of_text (line0 # data_lines)"
    using lines_of_text_readlines [of "universal_newlines stored"] assms(2) by simp
  then have "lines_of_text data_lines"
    by (simp add: lines_of_text_Cons)
  then have t: "\<forall>l \<in> set (butlast data_lines). l \<noteq> [] \<and> last l = CHR ''\<newline>''"
    by (rule lines_of_text_terminated)
  from split_io_groups [where makedirs = makedirs and locate = locate and input_dir = input_dir
      and stored = stored and delimiter = delimiter and files = files, OF assms]
  show ?thesis
    using t unfolding group_file_def by blast
qed

theorem group_file_contents_witness:
  "(\<lambda>p. None :: string option) (os_path_join ''/data'' ''intermediate'') = None \<and>
   readlines (universal_newlines ('' id~code'' @ [CHR 0x0D, CHR ''\<newline>''] @ ''1~A\<newline>2~B\<newline>3~A'')) =
     '' id~code\<newline>'' # [''1~A\<newline>'', ''2~B\<newline>'', ''3~A''] \<and>
   two_fields ''~'' ''1~A\<newline>'' \<and> two_fields ''~'' ''2~B\<newline>'' \<and> two_fields ''~'' ''3~A'' \<and>
   map (\<lambda>p. Inr p :: string + string) (group_paths ''/data'' ''~'' [''1~A\<newline>'', ''2~B\<newline>'', ''3~A'']) =
     map Inr [''/data/intermediate/A.txt'', ''/data/intermediate/B.txt''] \<and>
   distinct [''/data/intermediate/A.txt'', ''/data/intermediate/B.txt''] \<and>
   files_after (split_file_by_instruction_code_io (\<lambda>p. None) (\<lambda>p. Inr p) ''/data''
      ('' id~code'' @ [CHR 0x0D, CHR ''\<newline>''] @ ''1~A\<newline>2~B\<newline>3~A'') ''~'' Map.empty)
      ''/data/intermediate/A.txt'' = Some ''id~code\<newline>1~A\<newline>3~A'' \<and>
   files_after (split_file_by_instruction_code_io (\<lambda>p. None) (\<lambda>p. Inr p) ''/data''
      ('' id~code'' @ [CHR 0x0D, CHR ''\<newline>''] @ ''1~A\<newline>2~B\<newline>3~A'') ''~'' Map.empty)
      ''/data/intermediate/B.txt'' = Some ''id~code\<newline>2~B\<newline>''"
proof -
  let ?stored = "'' id~code'' @ [CHR 0x0D, CHR ''\<newline>''] @ ''1~A\<newline>2~B\<newline>3~A''"
  let ?lines = "[''1~A\<newline>'', ''2~B\<newline>'', ''3~A'']"
  have h1: "(\<lambda>p. None :: string option) (os_path_join ''/data'' ''intermediate'') = None"
    by simp
  have h2: "readlines (universal_newlines ?stored) = '' id~code\<newline>'' # ?lines"
    by code_simp
  have t: "two_fields ''~'' ''1~A\<newline>''" "two_fields ''~'' ''2~B\<newline>''" "two_fields ''~'' ''3~A''"
    by code_simp+
  then have h3: "\<forall>l \<in> set ?lines. two_fields ''~'' l"
    by simp
  have h4: "map (\<lambda>p. Inr p :: string + string) (group_paths ''/data'' ''~'' ?lines) =
            map Inr [''/data/intermediate/A.txt'', ''/data/intermediate/B.txt'']"
    by code_simp
  have h5: "distinct [''/data/intermediate/A.txt'', ''/data/intermediate/B.txt'']"
    by simp
  have k: "first_seen (map (field1 ''~'') ?lines) = [''A'', ''B'']"
    by code_simp
  have a: "(strip '' id~code\<newline>'' @ ''\<newline>'') @
             concat (filter (\<lambda>l. field1 ''~'' l = ''A'') ?lines) = ''id~code\<newline>1~A\<newline>3~A''"
    by code_simp
  have b: "(strip '' id~code\<newline>'' @ ''\<newline>'') @
             concat (filter (\<lambda>l. field1 ''~'' l = ''B'') ?lines) = ''id~code\<newline>2~B\<newline>''"
    by code_simp
  note inst = group_file_contents [where makedirs = "\<lambda>p. None" and locate = "\<lambda>p. Inr p"
      and input_dir = "''/data''" and stored = ?stored and delimiter = "''~''" and files = Map.empty,
      OF h1 h2 h3 h4 h5, unfolded k, THEN conjunct1]
  from inst [rule_format, of 0] have fa:
    "files_after (split_file_by_instruction_code_io (\<lambda>p. None) (\<lambda>p. Inr p) ''/data'' ?stored ''~''
       Map.empty) ''/data/intermediate/A.txt'' = Some ''id~code\<newline>1~A\<newline>3~A''"
    unfolding a [symmetric] by simp
  from inst [rule_format, of 1] have fb:
    "files_after (split_file_by_instruction_code_io (\<lambda>p. None) (\<lambda>p. Inr p) ''/data'' ?stored ''~''
       Map.empty) ''/data/intermediate/B.txt'' = Some ''id~code\<newline>2~B\<newline>''"
    unfolding b [symmetric] by simp
  from h2 t h4 fa fb show ?thesis
    by simp
qed

section \<open>Properties of the conversion stage\<close>

subsection \<open>Runs compose\<close>

lemma append_run_no_effects [simp]: "append_run st no_effects = st" "append_run no_effects st = st"
  by (simp_all add: append_run_def no_effects_def)

lemma append_run_assoc: "append_run (append_run a b) c = append_run a (append_run b c)"
  by (simp add: append_run_def)

lemma created_append:
  "created p df shown (append_run a b) = append_run a (created p df shown b)"
  by (simp add: created_def append_run_def)

lemma write_splits_append:
  "write_splits to_excel out base m df idxs (append_run a b) =
     (fst (write_splits to_excel out base m df idxs b),
      append_run a (snd (write_splits to_excel out base m df idxs b)))"
proof (induction idxs arbitrary: b)
  case Nil
  then show ?case by simp
next
  case (Cons i rest)
  then show ?case
    by (simp add: Let_def created_append split: option.splits)
qed

lemma reading_append:
  "(append_run a b)\<lparr>parsed := parsed (append_run a b) @ [f]\<rparr> =
     append_run a (b\<lparr>parsed := parsed b @ [f]\<rparr>)"
  by (simp add: append_run_def)

lemma convert_body_append:
  "convert_body read_csv to_excel out d m f (append_run a b) =
     (fst (convert_body read_csv to_excel out d m f b),
      append_run a (snd (convert_body read_csv to_excel out d m f b)))"
  unfolding convert_body_def Let_def reading_append
  by (simp add: write_splits_append created_append split: sum.splits option.splits)

lemma reported_append:
  "(append_run a b)\<lparr>printed := printed (append_run a b) @ [x]\<rparr> =
     append_run a (b\<lparr>printed := printed b @ [x]\<rparr>)"
  by (simp add: append_run_def)

lemma convert_file_append:
  "convert_file read_csv to_excel out d m f (append_run a b) =
     append_run a (convert_file read_csv to_excel out d m f b)"
proof -
  obtain e s where b: "convert_body read_csv to_excel out d m f b = (e, s)"
    by (cases "convert_body read_csv to_excel out d m f b")
  with convert_body_append [of read_csv to_excel out d m f a b]
  have "convert_body read_csv to_excel out d m f (append_run a b) = (e, append_run a s)" by simp
  with b show ?thesis
    by (cases e) (simp_all add: convert_file_def reported_append)
qed

lemma fold_convert_file_append:
  "fold (convert_file read_csv to_excel out d m) fs (append_run a b) =
     append_run a (fold (convert_file read_csv to_excel out d m) fs b)"
  by (induction fs arbitrary: b) (simp_all add: convert_file_append)

lemma fold_convert_file_from:
  "fold (convert_file read_csv to_excel out d m) fs st =
     append_run st (fold (convert_file read_csv to_excel out d m) fs no_effects)"
  using fold_convert_file_append [of read_csv to_excel out d m fs st no_effects] by simp

lemma convert_text_to_excel_append:
  "convert_text_to_excel read_csv to_excel (fs @ gs) inp outp d m =
     append_run (convert_text_to_excel read_csv to_excel fs inp outp d m)
       (convert_text_to_excel read_csv to_excel gs inp outp d m)"
  unfolding convert_text_to_excel_def Let_def fold_append comp_apply
  by (rule fold_convert_file_from)

lemma convert_text_to_excel_single:
  "convert_text_to_excel read_csv to_excel [f] inp outp d m =
     convert_file read_csv to_excel (case outp of None \<Rightarrow> inp | Some folder \<Rightarrow> folder) d m f no_effects"
  by (simp add: convert_text_to_excel_def)

lemma parsed_write_splits:
  "parsed (snd (write_splits to_excel out base m df idxs st)) = parsed st"
  by (induction idxs arbitrary: st) (auto simp: Let_def created_def split: option.splits)

lemma parsed_convert_file:
  "parsed (convert_file read_csv to_excel out d m f no_effects) = [f]"
proof -
  have "parsed (snd (convert_body read_csv to_excel out d m f no_effects)) = [f]"
    by (simp add: convert_body_def Let_def parsed_write_splits created_def no_effects_def
        split: sum.splits option.splits)
  then show ?thesis
    by (cases "convert_body read_csv to_excel out d m f no_effects")
      (simp add: convert_file_def split: option.splits)
qed

lemma parsed_convert_text_to_excel:
  "parsed (convert_text_to_excel read_csv to_excel fs inp outp d m) = fs"
proof (induction fs)
  case Nil
  then show ?case by (simp add: convert_text_to_excel_def no_effects_def)
next
  case (Cons f fs)
  have "convert_text_to_excel read_csv to_excel ([f] @ fs) inp outp d m =
        append_run (convert_text_to_excel read_csv to_excel [f] inp outp d m)
          (convert_text_to_excel read_csv to_excel fs inp outp d m)"
    by (rule convert_text_to_excel_append)
  with Cons show ?case
    by (simp add: append_run_def convert_text_to_excel_single parsed_convert_file)
qed

subsection \<open>Arithmetic of the splits\<close>

lemma ceil_div_int:
  fixes a b :: int
  assumes "0 < b"
  shows "- (- a div b) = (a + b - 1) div b"
proof -
  define q where "q = (a - 1) div b"
  define r where "r = (a - 1) mod b"
  have r: "0 \<le> r" "r < b"
    using assms by (simp_all add: r_def)
  have a: "a - 1 = b * q + r"
    by (simp add: q_def r_def)
  have "a + b - 1 = b * (q + 1) + r"
    using a by (simp add: algebra_simps)
  then have up: "(a + b - 1) div b = q + 1"
    using r by (rule int_div_pos_eq)
  have "- a = b * (- (q + 1)) + (b - 1 - r)"
    using a by (simp add: algebra_simps)
  moreover have "0 \<le> b - 1 - r" "b - 1 - r < b"
    using r by simp_all
  ultimately have "- a div b = - (q + 1)"
    by (rule int_div_pos_eq)
  with up show ?thesis by simp
qed

lemma ceiling_rows:
  assumes "0 < m"
  shows "nat \<lceil>real n / real_of_int m\<rceil> = nat ((int n + m - 1) div m)"
proof -
  have "\<lceil>real n / real_of_int m\<rceil> = \<lceil>real_of_int (int n) / real_of_int m\<rceil>" by simp
  also have "\<dots> = - (- int n div m)" by (rule ceiling_divide_eq_div)
  also have "\<dots> = (int n + m - 1) div m" by (rule ceil_div_int [OF assms])
  finally show ?thesis by simp
qed

lemma split_rows_nat:
  "split_rows df (int m) (int i) =
     take (min ((i + 1) * m) (length df) - i * m) (drop (i * m) df)"
proof -
  have "\<not> int i * int m < 0"
    by (simp add: not_less)
  then have a: "slice_bound (int i * int m) (length df) = min (i * m) (length df)"
    by (simp add: slice_bound_def nat_mult_distrib)
  have "(int i + 1) * int m = int ((i + 1) * m)"
    by (simp add: algebra_simps)
  then have "min ((int i + 1) * int m) (int (length df)) = int (min ((i + 1) * m) (length df))"
    by (simp only: of_nat_min)
  then have b: "slice_bound (min ((int i + 1) * int m) (int (length df))) (length df) =
             min ((i + 1) * m) (length df)"
    by (simp add: slice_bound_def del: of_nat_min of_nat_mult of_nat_add)
  show ?thesis
    unfolding split_rows_def Let_def iloc_def a b
    by (cases "i * m \<le> length df") (simp_all add: min_def)
qed

lemma take_clip: "take (min ((i + 1) * m) (length df) - i * m) (drop (i * m) df) = take m (drop (i * m) df)"
  by (cases "(i + 1) * m \<le> length df") (simp_all add: min_def)

lemma concat_batches: "concat (map (\<lambda>i. take m (drop (i * m) df)) [0..<k]) = take (k * m) df"
proof (induction k)
  case 0
  then show ?case by simp
next
  case (Suc k)
  have "take (k * m) df @ take m (drop (k * m) df) = take (k * m + m) df"
    by (simp add: take_add)
  with Suc show ?case by (simp add: add.commute)
qed

lemma write_splits_ok:
  assumes "\<forall>p r. to_excel p r = None"
  shows "fst (write_splits to_excel out base m df idxs st) = None \<and>
         workbooks (snd (write_splits to_excel out base m df idxs st)) =
           workbooks st @ map (\<lambda>i. (os_path_join out (split_filename base i), split_rows df m i)) idxs \<and>
         excel_files (snd (write_splits to_excel out base m df idxs st)) =
           excel_files st @ map (\<lambda>i. os_path_join out (split_filename base i)) idxs"
  using assms by (induction idxs arbitrary: st) (simp_all add: Let_def created_def)

lemma write_splits_prefix:
  "\<exists>k \<le> length idxs.
     workbooks (snd (write_splits to_excel out base m df idxs st)) =
       workbooks st @ map (\<lambda>i. (os_path_join out (split_filename base i), split_rows df m i)) (take k idxs) \<and>
     excel_files (snd (write_splits to_excel out base m df idxs st)) =
       excel_files st @ map (\<lambda>i. os_path_join out (split_filename base i)) (take k idxs)"
proof (induction idxs arbitrary: st)
  case Nil
  then show ?case by simp
next
  case (Cons i rest)
  let ?path = "os_path_join out (split_filename base i)"
  show ?case
  proof (cases "to_excel ?path (split_rows df m i)")
    case (Some msg)
    then have "write_splits to_excel out base m df (i # rest) st = (Some (OtherError msg), st)"
      by (simp add: Let_def)
    then show ?thesis by (intro exI [of _ 0]) simp
  next
    case None
    let ?st = "created ?path (split_rows df m i) (split_filename base i) st"
    from Cons.IH [of ?st] obtain k where k: "k \<le> length rest"
      and w: "workbooks (snd (write_splits to_excel out base m df rest ?st)) =
         workbooks ?st @ map (\<lambda>i. (os_path_join out (split_filename base i), split_rows df m i)) (take k rest)"
      and e: "excel_files (snd (write_splits to_excel out base m df rest ?st)) =
         excel_files ?st @ map (\<lambda>i. os_path_join out (split_filename base i)) (take k rest)"
      by blast
    have step: "write_splits to_excel out base m df (i # rest) st =
                write_splits to_excel out base m df rest ?st"
      using None by (simp add: Let_def)
    show ?thesis
      unfolding step using k w e by (intro exI [of _ "Suc k"]) (simp add: created_def)
  qed
qed

lemma batches_cover:
  assumes "0 < m"
  shows "n \<le> nat ((int n + int m - 1) div int m) * m"
proof -
  have "(int n + int m - 1) div int m = int ((n + m - 1) div m)"
    using assms by (simp add: zdiv_int of_nat_diff)
  then have "nat ((int n + int m - 1) div int m) = (n + m - 1) div m" by simp
  moreover have "n + m - 1 < (n + m - 1) div m * m + m"
    using assms by (metis add.commute dividend_less_div_times)
  ultimately show ?thesis using assms by simp
qed

subsection \<open>One file\<close>

lemma convert_file_outputs:
  "workbooks (convert_file read_csv to_excel out d m f st) =
     workbooks (snd (convert_body read_csv to_excel out d m f st))"
  "excel_files (convert_file read_csv to_excel out d m f st) =
     excel_files (snd (convert_body read_csv to_excel out d m f st))"
  by (cases "convert_body read_csv to_excel out d m f st";
      simp add: convert_file_def split: option.splits)+

lemma convert_body_small:
  assumes "read_csv f d = Inr df" and "int (length df) \<le> m"
    and "to_excel (os_path_join out (splitext_root (basename f) @ ''.xlsx'')) df = None"
  shows "convert_body read_csv to_excel out d m f no_effects =
           (None,
            \<lparr>parsed = [f],
             workbooks = [(os_path_join out (splitext_root (basename f) @ ''.xlsx''), df)],
             printed = [Created (basename (os_path_join out (splitext_root (basename f) @ ''.xlsx'')))],
             excel_files = [os_path_join out (splitext_root (basename f) @ ''.xlsx'')]\<rparr>)"
  using assms by (simp add: convert_body_def Let_def created_def no_effects_def)

lemma convert_body_big:
  assumes "read_csv f d = Inr df" and "int (length df) > m" and "m \<noteq> 0"
  shows "convert_body read_csv to_excel out d m f no_effects =
           write_splits to_excel out (splitext_root (basename f)) m df
             (map int [0..<nat ((int (length df) + m - 1) div m)])
             (no_effects\<lparr>parsed := [f]\<rparr>)"
  using assms by (simp add: convert_body_def Let_def no_effects_def)

lemma batches_of_file:
  fixes df :: "'row list"
  assumes "0 < m" and "read_csv f d = Inr df" and "\<forall>p r. to_excel p r = None"
  shows "\<exists>k. map snd (workbooks (convert_file read_csv to_excel out d m f no_effects)) =
               map (\<lambda>i. take (nat m) (drop (i * nat m) df)) [0..<k] \<and>
             k = (if df = [] then 1 else nat \<lceil>real (length df) / real_of_int m\<rceil>) \<and>
             length df \<le> k * nat m"
proof (cases "int (length df) \<le> m")
  case True
  have "to_excel (os_path_join out (splitext_root (basename f) @ ''.xlsx'')) df = None"
    using assms(3) by simp
  with assms(2) True
  have "convert_body read_csv to_excel out d m f no_effects =
           (None,
            \<lparr>parsed = [f],
             workbooks = [(os_path_join out (splitext_root (basename f) @ ''.xlsx''), df)],
             printed = [Created (basename (os_path_join out (splitext_root (basename f) @ ''.xlsx'')))],
             excel_files = [os_path_join out (splitext_root (basename f) @ ''.xlsx'')]\<rparr>)"
    by (rule convert_body_small)
  then have w: "map snd (workbooks (convert_file read_csv to_excel out d m f no_effects)) = [df]"
    by (simp add: convert_file_outputs)
  have len: "length df \<le> nat m"
    using True by simp
  have one: "df \<noteq> [] \<Longrightarrow> nat \<lceil>real (length df) / real_of_int m\<rceil> = 1"
  proof -
    assume "df \<noteq> []"
    then have pos: "0 < int (length df)" by simp
    have "int (length df) + m - 1 = m * 1 + (int (length df) - 1)" by simp
    moreover have "0 \<le> int (length df) - 1" "int (length df) - 1 < m"
      using pos True by simp_all
    ultimately have "(int (length df) + m - 1) div m = 1"
      by (rule int_div_pos_eq)
    then show ?thesis
      by (simp add: ceiling_rows [OF assms(1)])
  qed
  show ?thesis
    using w len one by (intro exI [of _ 1]) simp
next
  case False
  then have big: "int (length df) > m" by simp
  have nz: "m \<noteq> 0" using assms(1) by simp
  define k where "k = nat ((int (length df) + m - 1) div m)"
  have m: "m = int (nat m)" using assms(1) by simp
  from write_splits_ok [OF assms(3)]
  have "workbooks (snd (convert_body read_csv to_excel out d m f no_effects)) =
          map (\<lambda>i. (os_path_join out (split_filename (splitext_root (basename f)) i), split_rows df m i))
            (map int [0..<k])"
    unfolding convert_body_big [where read_csv = read_csv and f = f and d = d and df = df,
        OF assms(2) big nz] k_def
    by (simp add: no_effects_def)
  then have "map snd (workbooks (convert_file read_csv to_excel out d m f no_effects)) =
          map (\<lambda>i. split_rows df m (int i)) [0..<k]"
    by (simp add: convert_file_outputs comp_def)
  also have "\<dots> = map (\<lambda>i. split_rows df (int (nat m)) (int i)) [0..<k]"
    using m by simp
  also have "\<dots> = map (\<lambda>i. take (nat m) (drop (i * nat m) df)) [0..<k]"
    by (simp only: split_rows_nat take_clip)
  finally have w: "map snd (workbooks (convert_file read_csv to_excel out d m f no_effects)) =
          map (\<lambda>i. take (nat m) (drop (i * nat m) df)) [0..<k]" .
  have ne: "df \<noteq> []" using big assms(1) by auto
  have c: "k = nat \<lceil>real (length df) / real_of_int m\<rceil>"
    by (simp add: k_def ceiling_rows [OF assms(1)])
  have "0 < nat m" using assms(1) by simp
  from batches_cover [OF this, of "length df"] have "length df \<le> k * nat m"
    using m by (simp add: k_def)
  with w ne c show ?thesis by auto
qed

lemma take_indices: "k \<le> n \<Longrightarrow> take k (map int [0..<n]) = map int [0..<k]"
  by (simp add: take_map take_upt)

lemma outputs_of_write_splits:
  fixes st :: "'row convert_run"
  assumes body: "convert_body read_csv to_excel out d m f no_effects =
                   write_splits to_excel out base m df (map int [0..<n]) st"
    and st: "workbooks st = []" "excel_files st = []"
  shows "\<exists>k. excel_files (convert_file read_csv to_excel out d m f no_effects) =
               map (\<lambda>i. os_path_join out (split_filename base (int i))) [0..<k] \<and>
             map fst (workbooks (convert_file read_csv to_excel out d m f no_effects)) =
               map (\<lambda>i. os_path_join out (split_filename base (int i))) [0..<k]"
proof -
  obtain k where k: "k \<le> length (map int [0..<n])"
    and w: "workbooks (snd (write_splits to_excel out base m df (map int [0..<n]) st)) =
       workbooks st @ map (\<lambda>i. (os_path_join out (split_filename base i), split_rows df m i))
         (take k (map int [0..<n]))"
    and e: "excel_files (snd (write_splits to_excel out base m df (map int [0..<n]) st)) =
       excel_files st @ map (\<lambda>i. os_path_join out (split_filename base i)) (take k (map int [0..<n]))"
    using write_splits_prefix [of "map int [0..<n]" to_excel out base m df st] by blast
  from k have t: "take k (map int [0..<n]) = map int [0..<k]"
    by (intro take_indices) simp
  have "excel_files (convert_file read_csv to_excel out d m f no_effects) =
        excel_files (snd (write_splits to_excel out base m df (map int [0..<n]) st))"
    by (simp only: convert_file_outputs body)
  also have "\<dots> = map (\<lambda>i. os_path_join out (split_filename base i)) (map int [0..<k])"
    by (simp only: e t st append_Nil)
  also have "\<dots> = map (\<lambda>i. os_path_join out (split_filename base (int i))) [0..<k]"
    by (simp only: map_map comp_def)
  finally have a: "excel_files (convert_file read_csv to_excel out d m f no_effects) =
        map (\<lambda>i. os_path_join out (split_filename base (int i))) [0..<k]" .
  have "map fst (workbooks (convert_file read_csv to_excel out d m f no_effects)) =
        map fst (workbooks (snd (write_splits to_excel out base m df (map int [0..<n]) st)))"
    by (simp only: convert_file_outputs body)
  also have "\<dots> = map fst (map (\<lambda>i. (os_path_join out (split_filename base i), split_rows df m i))
                        (map int [0..<k]))"
    by (simp only: w t st append_Nil)
  also have "\<dots> = map (\<lambda>i. os_path_join out (split_filename base (int i))) [0..<k]"
    by (simp only: map_map comp_def fst_conv)
  finally have b: "map fst (workbooks (convert_file read_csv to_excel out d m f no_effects)) =
        map (\<lambda>i. os_path_join out (split_filename base (int i))) [0..<k]" .
  show ?thesis
    by (rule exI [of _ k]) (rule conjI [OF a b])
qed

subsection \<open>Pagination\<close>

text \<open>
  Claim C2, as the code has it. The claim gives \<open>ceil(n/m)\<close> batches for every \<open>n\<close>.
  A data frame without rows is within the limit, so line 122 saves it as one workbook
  without rows: one batch, where \<open>ceil(0/m)\<close> is zero. The next theorem evaluates the
  code on such a file with \<open>max_rows = 1\<close>.
\<close>

theorem pagination_batches_counterexample:
  "length (workbooks (convert_text_to_excel (\<lambda>f d. Inr ([] :: string list list)) (\<lambda>p r. None)
             [''in/A.txt''] ''in'' (Some ''out'') ''~'' 1)) = 1 \<and>
   nat \<lceil>real (length ([] :: string list list)) / real_of_int 1\<rceil> = 0"
proof -
  have "length (workbooks (convert_text_to_excel (\<lambda>f d. Inr ([] :: string list list)) (\<lambda>p r. None)
             [''in/A.txt''] ''in'' (Some ''out'') ''~'' 1)) = 1"
    by code_simp
  then show ?thesis by simp
qed

text \<open>
  Claim C2, as amended. For a positive \<open>max_rows = m\<close>, a file parsed into
  \<open>n\<close> rows and a writer that does not fail: there are
  \<open>ceil(n/m)\<close> batches when \<open>n \<ge> 1\<close> and one batch when
  \<open>n = 0\<close>; batch \<open>i\<close>, counted from 0 here, holds the rows from
  \<open>i * m\<close> up to \<open>min ((i + 1) * m) n\<close>; no batch has more than
  \<open>m\<close> rows; the sizes add up to \<open>n\<close>; and the batches in order
  are the rows in order.
\<close>

theorem pagination_batches:
  fixes df :: "'row list"
  assumes "0 < max_rows" and "read_csv text_file delimiter = Inr df"
    and "\<forall>p r. to_excel p r = None"
  shows "let run = convert_text_to_excel read_csv to_excel [text_file] input_folder output_folder
                     delimiter max_rows;
             batches = map snd (workbooks run);
             n = length df;
             m = nat max_rows
         in length batches = (if n = 0 then 1 else nat \<lceil>real n / real_of_int max_rows\<rceil>) \<and>
            (\<forall>i < length batches.
               batches ! i = take (min ((i + 1) * m) n - i * m) (drop (i * m) df)) \<and>
            (\<forall>b \<in> set batches. length b \<le> m) \<and>
            sum_list (map length batches) = n \<and>
            concat batches = df"
proof -
  let ?out = "case output_folder of None \<Rightarrow> input_folder | Some folder \<Rightarrow> folder"
  let ?m = "nat max_rows"
  obtain k where
    w: "map snd (workbooks (convert_file read_csv to_excel ?out delimiter max_rows text_file no_effects)) =
          map (\<lambda>i. take ?m (drop (i * ?m) df)) [0..<k]"
    and k: "k = (if df = [] then 1 else nat \<lceil>real (length df) / real_of_int max_rows\<rceil>)"
    and cover: "length df \<le> k * ?m"
    using batches_of_file [where read_csv = read_csv and f = text_file and d = delimiter
        and df = df and to_excel = to_excel and out = ?out, OF assms]
    by blast
  let ?batches = "map (\<lambda>i. take ?m (drop (i * ?m) df)) [0..<k]"
  have a: "length ?batches = (if length df = 0 then 1 else nat \<lceil>real (length df) / real_of_int max_rows\<rceil>)"
    using k by simp
  have b: "\<forall>i < length ?batches.
             ?batches ! i = take (min ((i + 1) * ?m) (length df) - i * ?m) (drop (i * ?m) df)"
  proof (intro allI impI)
    fix i
    assume "i < length ?batches"
    then have "?batches ! i = take ?m (drop (i * ?m) df)"
      by simp
    then show "?batches ! i = take (min ((i + 1) * ?m) (length df) - i * ?m) (drop (i * ?m) df)"
      by (simp only: take_clip)
  qed
  have c: "\<forall>b \<in> set ?batches. length b \<le> ?m"
    by auto
  have e: "concat ?batches = df"
    using cover by (simp add: concat_batches)
  have "sum_list (map length ?batches) = length (concat ?batches)"
    by (simp only: length_concat)
  with e have d: "sum_list (map length ?batches) = length df"
    by simp
  show ?thesis
    unfolding Let_def convert_text_to_excel_single w
    using a b c d e by blast
qed

theorem pagination_batches_witness:
  "(0::int) < 2 \<and>
   (\<lambda>f d. Inr [''r1'', ''r2'', ''r3'']) ''in/A.txt'' ''~'' = (Inr [''r1'', ''r2'', ''r3''] :: string + string list) \<and>
   (\<forall>p r. (\<lambda>p r. None :: string option) (p :: string) (r :: string list) = None) \<and>
   length (map snd (workbooks (convert_text_to_excel (\<lambda>f d. Inr [''r1'', ''r2'', ''r3'']) (\<lambda>p r. None)
      [''in/A.txt''] ''in'' (Some ''out'') ''~'' 2))) = 2 \<and>
   concat (map snd (workbooks (convert_text_to_excel (\<lambda>f d. Inr [''r1'', ''r2'', ''r3'']) (\<lambda>p r. None)
      [''in/A.txt''] ''in'' (Some ''out'') ''~'' 2))) = [''r1'', ''r2'', ''r3'']"
proof -
  have h1: "(0::int) < 2" by simp
  have h2: "(\<lambda>f d. Inr [''r1'', ''r2'', ''r3'']) ''in/A.txt'' ''~'' =
              (Inr [''r1'', ''r2'', ''r3''] :: string + string list)"
    by simp
  have h3: "\<forall>p r. (\<lambda>p r. None :: string option) (p :: string) (r :: string list) = None"
    by simp
  have c: "nat \<lceil>real (length [''r1'', ''r2'', ''r3'']) / real_of_int 2\<rceil> = 2"
    by simp
  show ?thesis
    using pagination_batches [where read_csv = "\<lambda>f d. Inr [''r1'', ''r2'', ''r3'']"
        and to_excel = "\<lambda>p r. None" and text_file = "''in/A.txt''" and delimiter = "''~''"
        and df = "[''r1'', ''r2'', ''r3'']" and max_rows = 2 and input_folder = "''in''"
        and output_folder = "Some ''out''", OF h1 h2 h3] c
    by (simp add: Let_def)
qed

subsection \<open>Names of the workbooks\<close>

lemma excel_files_big:
  assumes "read_csv f d = Inr df" and "int (length df) > m"
  shows "\<exists>k. excel_files (convert_file read_csv to_excel out d m f no_effects) =
               map (\<lambda>i. os_path_join out (split_filename (splitext_root (basename f)) (int i))) [0..<k] \<and>
             map fst (workbooks (convert_file read_csv to_excel out d m f no_effects)) =
               map (\<lambda>i. os_path_join out (split_filename (splitext_root (basename f)) (int i))) [0..<k]"
proof (cases "m = 0")
  case True
  with assms have "convert_body read_csv to_excel out d m f no_effects =
      (Some ZeroDivisionError, no_effects\<lparr>parsed := [f]\<rparr>)"
    by (simp add: convert_body_def Let_def no_effects_def)
  then have "excel_files (convert_file read_csv to_excel out d m f no_effects) = []"
    and "workbooks (convert_file read_csv to_excel out d m f no_effects) = []"
    by (simp_all add: convert_file_outputs no_effects_def)
  then show ?thesis
    by (intro exI [of _ 0]) simp
next
  case False
  have body: "convert_body read_csv to_excel out d m f no_effects =
                write_splits to_excel out (splitext_root (basename f)) m df
                  (map int [0..<nat ((int (length df) + m - 1) div m)])
                  (no_effects\<lparr>parsed := [f]\<rparr>)"
    using assms False
    by (rule convert_body_big [where read_csv = read_csv and f = f and d = d and df = df])
  have st: "workbooks (no_effects\<lparr>parsed := [f]\<rparr> :: 'a convert_run) = []"
    "excel_files (no_effects\<lparr>parsed := [f]\<rparr> :: 'a convert_run) = []"
    by (simp_all add: no_effects_def)
  from body st show ?thesis
    by (rule outputs_of_write_splits)
qed

lemma output_small:
  assumes "read_csv f d = Inr df" and "int (length df) \<le> m"
    and "to_excel (os_path_join out (splitext_root (basename f) @ ''.xlsx'')) df = None"
  shows "workbooks (convert_file read_csv to_excel out d m f no_effects) =
           [(os_path_join out (splitext_root (basename f) @ ''.xlsx''), df)] \<and>
         excel_files (convert_file read_csv to_excel out d m f no_effects) =
           [os_path_join out (splitext_root (basename f) @ ''.xlsx'')]"
proof -
  from assms have "convert_body read_csv to_excel out d m f no_effects =
           (None,
            \<lparr>parsed = [f],
             workbooks = [(os_path_join out (splitext_root (basename f) @ ''.xlsx''), df)],
             printed = [Created (basename (os_path_join out (splitext_root (basename f) @ ''.xlsx'')))],
             excel_files = [os_path_join out (splitext_root (basename f) @ ''.xlsx'')]\<rparr>)"
    by (rule convert_body_small)
  then show ?thesis by (simp add: convert_file_outputs)
qed

lemma output_big:
  assumes "read_csv f d = Inr df" and "int (length df) > m"
  shows "excel_files (convert_file read_csv to_excel out d m f no_effects) =
           map (\<lambda>i. os_path_join out
                  (splitext_root (basename f) @ ''_part'' @ str_int (int i + 1) @ ''.xlsx''))
             [0..<length (excel_files (convert_file read_csv to_excel out d m f no_effects))] \<and>
         map fst (workbooks (convert_file read_csv to_excel out d m f no_effects)) =
           excel_files (convert_file read_csv to_excel out d m f no_effects)"
proof -
  from excel_files_big [where read_csv = read_csv and f = f and d = d and df = df,
      OF assms, of to_excel out]
  obtain k where
    e: "excel_files (convert_file read_csv to_excel out d m f no_effects) =
          map (\<lambda>i. os_path_join out (split_filename (splitext_root (basename f)) (int i))) [0..<k]"
    and w: "map fst (workbooks (convert_file read_csv to_excel out d m f no_effects)) =
          map (\<lambda>i. os_path_join out (split_filename (splitext_root (basename f)) (int i))) [0..<k]"
    by blast
  have len: "length (excel_files (convert_file read_csv to_excel out d m f no_effects)) = k"
    by (simp add: e)
  have names: "(\<lambda>i. os_path_join out (split_filename (splitext_root (basename f)) (int i))) =
        (\<lambda>i. os_path_join out
                  (splitext_root (basename f) @ ''_part'' @ str_int (int i + 1) @ ''.xlsx''))"
    by (simp only: split_filename_def)
  show ?thesis
    unfolding len using e w unfolding names by (simp only: simp_thms)
qed

text \<open>
  Claim C7. For a file parsed into \<open>n\<close> rows: when \<open>n \<le> max_rows\<close> and the writer
  does not fail, exactly one workbook is written, it holds all the rows, and it is named
  by the base name of the file with no part suffix; when \<open>n > max_rows\<close>, the
  workbooks created are named \<open>base_part1\<close>, \<open>base_part2\<close> and so on, in this order,
  whatever the writer does.
\<close>

theorem output_names:
  assumes "read_csv text_file delimiter = Inr df"
  shows "let out = (case output_folder of None \<Rightarrow> input_folder | Some folder \<Rightarrow> folder);
             base = splitext_root (basename text_file);
             run = convert_text_to_excel read_csv to_excel [text_file] input_folder output_folder
                     delimiter max_rows
         in (int (length df) \<le> max_rows \<longrightarrow>
             to_excel (os_path_join out (base @ ''.xlsx'')) df = None \<longrightarrow>
               workbooks run = [(os_path_join out (base @ ''.xlsx''), df)] \<and>
               excel_files run = [os_path_join out (base @ ''.xlsx'')]) \<and>
            (int (length df) > max_rows \<longrightarrow>
               excel_files run =
                 map (\<lambda>i. os_path_join out (base @ ''_part'' @ str_int (int i + 1) @ ''.xlsx''))
                   [0..<length (excel_files run)] \<and>
               map fst (workbooks run) = excel_files run)"
  unfolding Let_def convert_text_to_excel_single
proof (intro conjI impI)
  let ?out = "case output_folder of None \<Rightarrow> input_folder | Some folder \<Rightarrow> folder"
  let ?run = "convert_file read_csv to_excel ?out delimiter max_rows text_file no_effects"
  assume small: "int (length df) \<le> max_rows"
    and ok: "to_excel (os_path_join ?out (splitext_root (basename text_file) @ ''.xlsx'')) df = None"
  from output_small [where read_csv = read_csv and f = text_file and d = delimiter and df = df
      and to_excel = to_excel and out = ?out and m = max_rows, OF assms small ok]
  show "workbooks ?run = [(os_path_join ?out (splitext_root (basename text_file) @ ''.xlsx''), df)]"
    and "excel_files ?run = [os_path_join ?out (splitext_root (basename text_file) @ ''.xlsx'')]"
    by (rule conjunct1, rule conjunct2)
next
  let ?out = "case output_folder of None \<Rightarrow> input_folder | Some folder \<Rightarrow> folder"
  let ?run = "convert_file read_csv to_excel ?out delimiter max_rows text_file no_effects"
  assume big: "max_rows < int (length df)"
  from output_big [where read_csv = read_csv and f = text_file and d = delimiter and df = df
      and to_excel = to_excel and out = ?out and m = max_rows, OF assms big]
  show "excel_files ?run =
          map (\<lambda>i. os_path_join ?out
                 (splitext_root (basename text_file) @ ''_part'' @ str_int (int i + 1) @ ''.xlsx''))
            [0..<length (excel_files ?run)]"
    and "map fst (workbooks ?run) = excel_files ?run"
    by (rule conjunct1, rule conjunct2)
qed

theorem output_names_witness:
  "(\<lambda>f d. Inr [''r1'', ''r2'', ''r3'']) ''in/A.txt'' ''~'' = (Inr [''r1'', ''r2'', ''r3''] :: string + string list) \<and>
   excel_files (convert_text_to_excel (\<lambda>f d. Inr [''r1'', ''r2'', ''r3'']) (\<lambda>p r. None)
      [''in/A.txt''] ''in'' (Some ''out'') ''~'' 3) = [''out/A.xlsx''] \<and>
   workbooks (convert_text_to_excel (\<lambda>f d. Inr [''r1'', ''r2'', ''r3'']) (\<lambda>p r. None)
      [''in/A.txt''] ''in'' (Some ''out'') ''~'' 3) = [(''out/A.xlsx'', [''r1'', ''r2'', ''r3''])] \<and>
   excel_files (convert_text_to_excel (\<lambda>f d. Inr [''r1'', ''r2'', ''r3'']) (\<lambda>p r. None)
      [''in/A.txt''] ''in'' (Some ''out'') ''~'' 2) = [''out/A_part1.xlsx'', ''out/A_part2.xlsx'']"
proof -
  have h: "(\<lambda>f d. Inr [''r1'', ''r2'', ''r3'']) ''in/A.txt'' ''~'' =
             (Inr [''r1'', ''r2'', ''r3''] :: string + string list)"
    by simp
  have p1: "os_path_join ''out'' (splitext_root (basename ''in/A.txt'') @ ''.xlsx'') = ''out/A.xlsx''"
    by code_simp
  have len: "length (excel_files (convert_text_to_excel (\<lambda>f d. Inr [''r1'', ''r2'', ''r3''])
      (\<lambda>p r. None :: string option) [''in/A.txt''] ''in'' (Some ''out'') ''~'' 2)) = 2"
    by code_simp
  have p2: "map (\<lambda>i. os_path_join ''out''
                (splitext_root (basename ''in/A.txt'') @ ''_part'' @ str_int (int i + 1) @ ''.xlsx''))
              [0..<2] = [''out/A_part1.xlsx'', ''out/A_part2.xlsx'']"
    by code_simp
  note t3 = output_names [where read_csv = "\<lambda>f d. Inr [''r1'', ''r2'', ''r3'']"
        and to_excel = "\<lambda>p r. None" and text_file = "''in/A.txt''" and delimiter = "''~''"
        and df = "[''r1'', ''r2'', ''r3'']" and max_rows = 3 and input_folder = "''in''"
        and output_folder = "Some ''out''", OF h, unfolded Let_def option.case p1]
  note t2 = output_names [where read_csv = "\<lambda>f d. Inr [''r1'', ''r2'', ''r3'']"
        and to_excel = "\<lambda>p r. None" and text_file = "''in/A.txt''" and delimiter = "''~''"
        and df = "[''r1'', ''r2'', ''r3'']" and max_rows = 2 and input_folder = "''in''"
        and output_folder = "Some ''out''", OF h, unfolded Let_def option.case len p2]
  have a: "excel_files (convert_text_to_excel (\<lambda>f d. Inr [''r1'', ''r2'', ''r3'']) (\<lambda>p r. None)
      [''in/A.txt''] ''in'' (Some ''out'') ''~'' 3) = [''out/A.xlsx''] \<and>
   workbooks (convert_text_to_excel (\<lambda>f d. Inr [''r1'', ''r2'', ''r3'']) (\<lambda>p r. None)
      [''in/A.txt''] ''in'' (Some ''out'') ''~'' 3) = [(''out/A.xlsx'', [''r1'', ''r2'', ''r3''])]"
    using t3 by simp
  have b: "excel_files (convert_text_to_excel (\<lambda>f d. Inr [''r1'', ''r2'', ''r3'']) (\<lambda>p r. None)
      [''in/A.txt''] ''in'' (Some ''out'') ''~'' 2) = [''out/A_part1.xlsx'', ''out/A_part2.xlsx'']"
    using t2 by simp
  from a b show ?thesis by simp
qed

subsection \<open>Errors\<close>

lemma write_splits_errors:
  "fst (write_splits to_excel out base m df idxs st) = Some e \<Longrightarrow> \<exists>msg. e = OtherError msg"
  by (induction idxs arbitrary: st) (auto simp: Let_def split: option.splits)

lemma write_splits_printed:
  "Error_processing f e \<in> set (printed (snd (write_splits to_excel out base m df idxs st))) \<Longrightarrow>
     Error_processing f e \<in> set (printed st)"
proof (induction idxs arbitrary: st)
  case Nil
  then show ?case by simp
next
  case (Cons i rest)
  show ?case
  proof (cases "to_excel (os_path_join out (split_filename base i)) (split_rows df m i)")
    case None
    with Cons.prems have "Error_processing f e \<in> set (printed (snd (write_splits to_excel out base m df rest
        (created (os_path_join out (split_filename base i)) (split_rows df m i) (split_filename base i) st))))"
      by (simp add: Let_def)
    from Cons.IH [OF this] show ?thesis by (simp add: created_def)
  next
    case (Some msg)
    with Cons.prems show ?thesis by (simp add: Let_def)
  qed
qed

lemma convert_body_errors:
  assumes "fst (convert_body read_csv to_excel out d m f st) = Some e"
  shows "e = ZeroDivisionError \<or> (\<exists>msg. e = OtherError msg)"
proof (cases "read_csv f d")
  case (Inl msg)
  with assms show ?thesis by (auto simp: convert_body_def Let_def)
next
  case (Inr df)
  show ?thesis
  proof (cases "int (length df) > m")
    case True
    show ?thesis
    proof (cases "m = 0")
      case True
      with assms Inr \<open>int (length df) > m\<close> show ?thesis
        by (auto simp: convert_body_def Let_def)
    next
      case False
      with assms Inr True have
        "fst (write_splits to_excel out (splitext_root (basename f)) m df
               (map int [0..<nat ((int (length df) + m - 1) div m)])
               (st\<lparr>parsed := parsed st @ [f]\<rparr>)) = Some e"
        by (simp add: convert_body_def Let_def)
      from write_splits_errors [OF this] show ?thesis by simp
    qed
  next
    case False
    with assms Inr show ?thesis
      by (auto simp: convert_body_def Let_def split: option.splits)
  qed
qed

lemma convert_body_printed:
  assumes "Error_processing g e \<in> set (printed (snd (convert_body read_csv to_excel out d m f st)))"
  shows "Error_processing g e \<in> set (printed st)"
proof (cases "read_csv f d")
  case (Inl msg)
  with assms show ?thesis by (simp add: convert_body_def Let_def)
next
  case (Inr df)
  show ?thesis
  proof (cases "int (length df) > m")
    case True
    show ?thesis
    proof (cases "m = 0")
      case True
      with assms Inr \<open>int (length df) > m\<close> show ?thesis
        by (simp add: convert_body_def Let_def)
    next
      case False
      with assms Inr True have
        "Error_processing g e \<in> set (printed (snd (write_splits to_excel out (splitext_root (basename f)) m df
               (map int [0..<nat ((int (length df) + m - 1) div m)])
               (st\<lparr>parsed := parsed st @ [f]\<rparr>))))"
        by (simp add: convert_body_def Let_def)
      from write_splits_printed [OF this] show ?thesis by simp
    qed
  next
    case False
    with assms Inr show ?thesis
      by (auto simp: convert_body_def Let_def created_def split: option.splits)
  qed
qed

lemma convert_file_printed:
  assumes "Error_processing g e \<in> set (printed (convert_file read_csv to_excel out d m f st))"
  shows "Error_processing g e \<in> set (printed st) \<or> e = ZeroDivisionError \<or> (\<exists>msg. e = OtherError msg)"
proof -
  obtain r s where b: "convert_body read_csv to_excel out d m f st = (r, s)"
    by (cases "convert_body read_csv to_excel out d m f st")
  show ?thesis
  proof (cases r)
    case None
    with assms b have "Error_processing g e \<in> set (printed (snd (convert_body read_csv to_excel out d m f st)))"
      by (simp add: convert_file_def)
    from convert_body_printed [OF this] show ?thesis by simp
  next
    case (Some e')
    with b have "fst (convert_body read_csv to_excel out d m f st) = Some e'" by simp
    from convert_body_errors [OF this] have e': "e' = ZeroDivisionError \<or> (\<exists>msg. e' = OtherError msg)" .
    from assms b Some have "Error_processing g e \<in> set (printed s) \<or> e = e'"
      by (auto simp: convert_file_def)
    moreover have "Error_processing g e \<in> set (printed s) \<Longrightarrow> Error_processing g e \<in> set (printed st)"
      using convert_body_printed [of g e read_csv to_excel out d m f st] b by simp
    ultimately show ?thesis using e' by blast
  qed
qed

lemma fold_convert_file_printed:
  assumes "Error_processing g e \<in> set (printed (fold (convert_file read_csv to_excel out d m) fs st))"
  shows "Error_processing g e \<in> set (printed st) \<or> e = ZeroDivisionError \<or> (\<exists>msg. e = OtherError msg)"
  using assms
proof (induction fs arbitrary: st)
  case Nil
  then show ?case by simp
next
  case (Cons f fs)
  from Cons.prems have
    "Error_processing g e \<in> set (printed (fold (convert_file read_csv to_excel out d m) fs
        (convert_file read_csv to_excel out d m f st)))"
    by simp
  from Cons.IH [OF this] convert_file_printed [of g e read_csv to_excel out d m f st]
  show ?case by blast
qed

lemma reported_errors:
  assumes "Error_processing g e \<in> set (printed (convert_text_to_excel read_csv to_excel fs inp outp d m))"
  shows "e = ZeroDivisionError \<or> (\<exists>msg. e = OtherError msg)"
  using fold_convert_file_printed [of g e read_csv to_excel _ d m fs no_effects] assms
  by (simp add: convert_text_to_excel_def no_effects_def)

lemma zero_max_rows:
  assumes "read_csv f d = Inr df" and "df \<noteq> []"
  shows "convert_text_to_excel read_csv to_excel [f] inp outp d 0 =
           \<lparr>parsed = [f], workbooks = [], printed = [Error_processing f ZeroDivisionError],
            excel_files = []\<rparr>"
  using assms
  by (simp add: convert_text_to_excel_single convert_file_def convert_body_def Let_def no_effects_def)

text \<open>
  Claim C4, as the code has it. The claim says that a \<open>max_rows\<close> of zero or less makes
  the stage fail with a ConfigurationError before any file is parsed. The code never
  looks at \<open>max_rows\<close> before the loop and has no such error: each file is parsed first.
  The next theorem evaluates the call on one file of one row, with an output folder that
  can be made: with \<open>max_rows = 0\<close> the division of line 104 raises ZeroDivisionError,
  which line 133 catches and reports, and the call returns the empty list; with
  \<open>max_rows = -1\<close> a workbook without rows is written and its path is returned.
\<close>

theorem nonpositive_max_rows_counterexample:
  "convert_text_to_excel_io (\<lambda>p. None) (\<lambda>f d. Inr [''r1'']) (\<lambda>p r. None) [''in/A.txt''] ''in''
     (Some ''out'') ''~'' 0 =
     \<lparr>effects =
        \<lparr>parsed = [''in/A.txt''], workbooks = [],
         printed = [Error_processing ''in/A.txt'' ZeroDivisionError], excel_files = []\<rparr>,
      returned = Inr []\<rparr> \<and>
   convert_text_to_excel_io (\<lambda>p. None) (\<lambda>f d. Inr [''r1'']) (\<lambda>p r. None) [''in/A.txt''] ''in''
     (Some ''out'') ''~'' (- 1) =
     \<lparr>effects =
        \<lparr>parsed = [''in/A.txt''], workbooks = [(''out/A_part1.xlsx'', [])],
         printed = [Created ''A_part1.xlsx''], excel_files = [''out/A_part1.xlsx'']\<rparr>,
      returned = Inr [''out/A_part1.xlsx'']\<rparr>"
  by code_simp

text \<open>
  Claim C4, as amended. For \<open>max_rows \<le> 0\<close> the call never fails with a
  ConfigurationError. When the output folder cannot be made (line 84), the call fails with
  that OSError and nothing is parsed. Otherwise the call returns \<open>excel_files\<close> and
  every file found has been parsed, in order. No error reported for a file is a
  ConfigurationError; and with \<open>max_rows = 0\<close> a file that has at least one row is
  reported with ZeroDivisionError and gives no workbook.
\<close>

theorem nonpositive_max_rows_is_not_checked:
  assumes "max_rows \<le> 0"
  shows "let out = (case output_folder of None \<Rightarrow> input_folder | Some folder \<Rightarrow> folder);
             call = convert_text_to_excel_io makedirs read_csv to_excel text_files input_folder
                      output_folder delimiter max_rows
         in \<not> failed_with is_ConfigurationError (returned call) \<and>
            (\<forall>msg. makedirs out = Some msg \<longrightarrow>
               returned call = Inl (OSError msg) \<and> effects call = no_effects) \<and>
            (makedirs out = None \<longrightarrow>
               returned call = Inr (excel_files (effects call)) \<and>
               parsed (effects call) = text_files) \<and>
            (\<forall>f e. Error_processing f e \<in> set (printed (effects call)) \<longrightarrow>
               \<not> is_ConfigurationError e) \<and>
            (\<forall>f df. max_rows = 0 \<longrightarrow> makedirs out = None \<longrightarrow> read_csv f delimiter = Inr df \<longrightarrow>
               df \<noteq> [] \<longrightarrow>
               convert_text_to_excel_io makedirs read_csv to_excel [f] input_folder output_folder
                   delimiter max_rows =
                 \<lparr>effects =
                    \<lparr>parsed = [f], workbooks = [],
                     printed = [Error_processing f ZeroDivisionError], excel_files = []\<rparr>,
                  returned = Inr []\<rparr>)"
proof -
  let ?out = "case output_folder of None \<Rightarrow> input_folder | Some folder \<Rightarrow> folder"
  let ?run = "convert_text_to_excel read_csv to_excel text_files input_folder output_folder
                delimiter max_rows"
  let ?call = "convert_text_to_excel_io makedirs read_csv to_excel text_files input_folder
                 output_folder delimiter max_rows"
  have fail: "returned ?call = Inl (OSError msg) \<and> effects ?call = no_effects"
    if "makedirs ?out = Some msg" for msg
    using that by (simp add: convert_text_to_excel_io_def)
  have ok: "returned ?call = Inr (excel_files ?run) \<and> effects ?call = ?run"
    if "makedirs ?out = None"
    using that by (simp add: convert_text_to_excel_io_def Let_def)
  have a: "\<not> failed_with is_ConfigurationError (returned ?call)"
    using fail ok by (cases "makedirs ?out") auto
  have c: "returned ?call = Inr (excel_files (effects ?call)) \<and> parsed (effects ?call) = text_files"
    if "makedirs ?out = None"
    using ok [OF that] by (simp add: parsed_convert_text_to_excel)
  have d: "\<not> is_ConfigurationError e" if "Error_processing f e \<in> set (printed (effects ?call))" for f e
  proof (cases "makedirs ?out")
    case None
    with that ok have "Error_processing f e \<in> set (printed ?run)" by simp
    from reported_errors [OF this] show ?thesis by auto
  next
    case (Some msg)
    with that fail show ?thesis by (simp add: no_effects_def)
  qed
  have e: "convert_text_to_excel_io makedirs read_csv to_excel [f] input_folder output_folder
                   delimiter max_rows =
                 \<lparr>effects =
                    \<lparr>parsed = [f], workbooks = [],
                     printed = [Error_processing f ZeroDivisionError], excel_files = []\<rparr>,
                  returned = Inr []\<rparr>"
    if "max_rows = 0" "makedirs ?out = None" "read_csv f delimiter = Inr df" "df \<noteq> []" for f df
    using that by (simp add: convert_text_to_excel_io_def Let_def zero_max_rows)
  show ?thesis
    unfolding Let_def using a fail c d e by blast
qed

theorem nonpositive_max_rows_is_not_checked_witness:
  "(0::int) \<le> 0 \<and>
   (\<lambda>p. None :: string option) ''out'' = None \<and>
   returned (convert_text_to_excel_io (\<lambda>p. None) (\<lambda>f d. Inr [''r1'']) (\<lambda>p r. None)
               [''in/A.txt'', ''in/B.txt''] ''in'' (Some ''out'') ''~'' 0) =
     Inr (excel_files (effects (convert_text_to_excel_io (\<lambda>p. None) (\<lambda>f d. Inr [''r1''])
               (\<lambda>p r. None) [''in/A.txt'', ''in/B.txt''] ''in'' (Some ''out'') ''~'' 0))) \<and>
   parsed (effects (convert_text_to_excel_io (\<lambda>p. None) (\<lambda>f d. Inr [''r1'']) (\<lambda>p r. None)
               [''in/A.txt'', ''in/B.txt''] ''in'' (Some ''out'') ''~'' 0)) =
     [''in/A.txt'', ''in/B.txt''] \<and>
   (\<lambda>p. Some ''cannot make the folder'') ''out'' = Some ''cannot make the folder'' \<and>
   returned (convert_text_to_excel_io (\<lambda>p. Some ''cannot make the folder'') (\<lambda>f d. Inr [''r1''])
               (\<lambda>p r. None) [''in/A.txt'', ''in/B.txt''] ''in'' (Some ''out'') ''~'' 0) =
     Inl (OSError ''cannot make the folder'')"
proof -
  have h: "(0::int) \<le> 0" by simp
  note ok = nonpositive_max_rows_is_not_checked [where max_rows = 0 and makedirs = "\<lambda>p. None"
      and read_csv = "\<lambda>f d. Inr [''r1'']" and to_excel = "\<lambda>p r. None"
      and text_files = "[''in/A.txt'', ''in/B.txt'']" and input_folder = "''in''"
      and output_folder = "Some ''out''" and delimiter = "''~''", OF h, unfolded Let_def]
  note bad = nonpositive_max_rows_is_not_checked [where max_rows = 0
      and makedirs = "\<lambda>p. Some ''cannot make the folder''"
      and read_csv = "\<lambda>f d. Inr [''r1'']" and to_excel = "\<lambda>p r. None"
      and text_files = "[''in/A.txt'', ''in/B.txt'']" and input_folder = "''in''"
      and output_folder = "Some ''out''" and delimiter = "''~''", OF h, unfolded Let_def]
  from ok have a:
    "returned (convert_text_to_excel_io (\<lambda>p. None) (\<lambda>f d. Inr [''r1'']) (\<lambda>p r. None)
               [''in/A.txt'', ''in/B.txt''] ''in'' (Some ''out'') ''~'' 0) =
     Inr (excel_files (effects (convert_text_to_excel_io (\<lambda>p. None) (\<lambda>f d. Inr [''r1''])
               (\<lambda>p r. None) [''in/A.txt'', ''in/B.txt''] ''in'' (Some ''out'') ''~'' 0))) \<and>
     parsed (effects (convert_text_to_excel_io (\<lambda>p. None) (\<lambda>f d. Inr [''r1'']) (\<lambda>p r. None)
               [''in/A.txt'', ''in/B.txt''] ''in'' (Some ''out'') ''~'' 0)) =
     [''in/A.txt'', ''in/B.txt'']"
    by simp
  from bad have b:
    "returned (convert_text_to_excel_io (\<lambda>p. Some ''cannot make the folder'') (\<lambda>f d. Inr [''r1''])
               (\<lambda>p r. None) [''in/A.txt'', ''in/B.txt''] ''in'' (Some ''out'') ''~'' 0) =
     Inl (OSError ''cannot make the folder'')"
    by simp
  from a b show ?thesis by simp
qed






end
